theory Spec2Isabelle
  imports Main "HOL-Library.Word" "HOL-Library.Sublist"
begin

unbundle bit_operations_syntax

section \<open>Values, options and text formatting\<close>

text \<open>
  \<^verbatim>\<open>typedef __int64 Value\<close>: a signed 64-bit integer. Bit operations act on the word,
  the ordering of \<^verbatim>\<open>std::map<Value, WString>\<close> is the signed one.
  Wide strings are modelled as \<open>string\<close>; every character the formatters below produce
  is ASCII.
\<close>

type_synonym Value = "64 word"

text \<open>The command line options the generator consults (\<^verbatim>\<open>class ReverseOptions\<close>).\<close>

record ReverseOptions =
  kbd_type :: int
  num_only :: bool
  hexa_dump :: bool

text \<open>The values the constructor of \<^verbatim>\<open>ReverseOptions\<close> sets before parsing the arguments.\<close>

definition default_options :: ReverseOptions where
  "default_options = \<lparr>kbd_type = 0, num_only = False, hexa_dump = False\<rparr>"

definition digit_char :: "nat \<Rightarrow> char" where
  "digit_char d = ''0123456789ABCDEF'' ! d"

definition digit_char_lower :: "nat \<Rightarrow> char" where
  "digit_char_lower d = ''0123456789abcdef'' ! d"

text \<open>The digits of \<open>n\<close> in base \<open>b\<close>, most significant first; \<open>0\<close> is one digit.\<close>

function digits :: "(nat \<Rightarrow> char) \<Rightarrow> nat \<Rightarrow> nat \<Rightarrow> string" where
  "digits dc b n = (if n < b \<or> b < 2 then [dc n] else digits dc b (n div b) @ [dc (n mod b)])"
  by pat_completeness auto
termination
  by (relation "measure (\<lambda>(dc, b, n). n)") auto

declare digits.simps [simp del]

definition pad_left :: "char \<Rightarrow> nat \<Rightarrow> string \<Rightarrow> string" where
  "pad_left c w s = replicate (w - length s) c @ s"

definition pad_right :: "char \<Rightarrow> nat \<Rightarrow> string \<Rightarrow> string" where
  "pad_right c w s = s @ replicate (w - length s) c"

text \<open>
  Modelled from the spec: \<^verbatim>\<open>Format\<close> (strutils.h) is not among the sources; the spec
  describes its results as decimal and fixed-width hexadecimal renderings. Each
  definition below is \<^verbatim>\<open>Format\<close> at one format string of kbdreverse.cpp, with the
  meaning the C library gives the conversion: \<^verbatim>\<open>%lld\<close> a signed decimal,
  \<^verbatim>\<open>%llX\<close> and \<^verbatim>\<open>%X\<close> the unsigned value in upper-case hexadecimal,
  \<^verbatim>\<open>0\<close> with a width pads with zeros after the sign, and a negative \<^verbatim>\<open>*\<close> width
  left-justifies with blanks.
\<close>

definition signed_decimal :: "int \<Rightarrow> string" where
  "signed_decimal i = (if i < 0 then CHR ''-'' # digits digit_char 10 (nat (- i))
                       else digits digit_char 10 (nat i))"

definition signed_decimal_width :: "int \<Rightarrow> int \<Rightarrow> string" where
  "signed_decimal_width w i =
     (if w < 0 then pad_right CHR '' '' (nat (- w)) (signed_decimal i)
      else if i < 0 then CHR ''-'' # pad_left CHR ''0'' (nat w - 1) (digits digit_char 10 (nat (- i)))
      else pad_left CHR ''0'' (nat w) (digits digit_char 10 (nat i)))"

definition Format_lld :: "Value \<Rightarrow> string" where  \<comment> \<open>\<^verbatim>\<open>Format(L"%lld", value)\<close>\<close>
  "Format_lld v = signed_decimal (sint v)"

definition Format_0x_llX :: "int \<Rightarrow> Value \<Rightarrow> string" where  \<comment> \<open>\<^verbatim>\<open>Format(L"0x%0*llX", w, value)\<close>\<close>
  "Format_0x_llX w v =
     ''0x'' @ (if w < 0 then pad_right CHR '' '' (nat (- w)) (digits digit_char 16 (unat v))
               else pad_left CHR ''0'' (nat w) (digits digit_char 16 (unat v)))"

definition Format_0x_lld :: "int \<Rightarrow> Value \<Rightarrow> string" where  \<comment> \<open>\<^verbatim>\<open>Format(L"0x%0*lld", w, value)\<close>\<close>
  "Format_0x_lld w v = ''0x'' @ signed_decimal_width w (sint v)"

definition Format_0x_08X :: "32 word \<Rightarrow> string" where  \<comment> \<open>\<^verbatim>\<open>Format(L"0x%08X", flags)\<close>\<close>
  "Format_0x_08X v = ''0x'' @ pad_left CHR ''0'' 8 (digits digit_char 16 (unat v))"

definition Format_0x_04X :: "16 word \<Rightarrow> string" where  \<comment> \<open>\<^verbatim>\<open>Format(L"0x%04X", value)\<close>\<close>
  "Format_0x_04X v = ''0x'' @ pad_left CHR ''0'' 4 (digits digit_char 16 (unat v))"

definition Format_x_04x :: "16 word \<Rightarrow> string" where  \<comment> \<open>\<^verbatim>\<open>Format(L"\\x%04x", *value)\<close>\<close>
  "Format_x_04x v = [CHR 0x5C, CHR ''x''] @ pad_left CHR ''0'' 4 (digits digit_char_lower 16 (unat v))"

section \<open>Symbol tables\<close>

text \<open>
  \<^verbatim>\<open>typedef std::map<Value, WString> SymbolTable\<close>. A table is represented by its
  entries in the order in which the map iterates over them. \<open>map_insert\<close> is
  \<^verbatim>\<open>std::map::insert\<close>: the entry goes to its place in the signed order of the keys and
  is dropped when the key is already there. \<open>SymbolTable_of\<close> is the constructor from
  an initializer list, which inserts the listed entries one after the other.
\<close>

type_synonym SymbolTable = "(Value \<times> string) list"

fun map_insert :: "Value \<times> string \<Rightarrow> SymbolTable \<Rightarrow> SymbolTable" where
  "map_insert e [] = [e]"
| "map_insert e (e' # rest) =
     (if fst e = fst e' then e' # rest
      else if fst e <s fst e' then e # e' # rest
      else e' # map_insert e rest)"

definition SymbolTable_of :: "(Value \<times> string) list \<Rightarrow> SymbolTable" where
  "SymbolTable_of decl = foldl (\<lambda>m e. map_insert e m) [] decl"

section \<open>The value formatter\<close>

definition integer :: "Value \<Rightarrow> int \<Rightarrow> string" where
  "integer value hex_digits =
     (if hex_digits \<le> 0 then Format_lld value else Format_0x_llX hex_digits value)"

definition symbol :: "ReverseOptions \<Rightarrow> SymbolTable \<Rightarrow> Value \<Rightarrow> int \<Rightarrow> string" where
  "symbol opt symbols value hex_digits =
     (if \<not> num_only opt then
        (case map_of symbols value of
           Some s \<Rightarrow> s
         | None \<Rightarrow> integer value hex_digits)
      else integer value hex_digits)"

text \<open>
  \<^verbatim>\<open>if (!str.empty()) str += L" | "; str += s;\<close> as it occurs twice in \<^verbatim>\<open>bitMask\<close>.
\<close>

definition append_flag :: "string \<Rightarrow> string \<Rightarrow> string" where
  "append_flag str s = (if str \<noteq> [] then str @ '' | '' else str) @ s"

text \<open>
  The loop of \<^verbatim>\<open>bitMask\<close> over the entries of the table, with its local variables
  \<^verbatim>\<open>str\<close> and \<^verbatim>\<open>bits\<close>. \<open>Inl\<close> is the \<^verbatim>\<open>return sym.second\<close> inside the loop,
  \<open>Inr\<close> the state with which the loop falls through.
\<close>

fun bitMask_loop :: "SymbolTable \<Rightarrow> Value \<Rightarrow> string \<Rightarrow> Value \<Rightarrow> string + (string \<times> Value)" where
  "bitMask_loop [] value str bits = Inr (str, bits)"
| "bitMask_loop (entry # rest) value str bits =
     (if fst entry = 0 \<and> value = 0 then Inl (snd entry)
      else if fst entry \<noteq> 0 \<and> (value AND fst entry) = fst entry
        then bitMask_loop rest value (append_flag str (snd entry)) (bits OR fst entry)
      else bitMask_loop rest value str bits)"

definition bitMask :: "ReverseOptions \<Rightarrow> SymbolTable \<Rightarrow> Value \<Rightarrow> int \<Rightarrow> string" where
  "bitMask opt symbols value hex_digits =
     (if \<not> num_only opt then
        (case bitMask_loop symbols value [] 0 of
           Inl s \<Rightarrow> s
         | Inr (str, bits) \<Rightarrow>
             if bits \<noteq> 0 then
               (if (value AND NOT bits) \<noteq> 0
                then append_flag str (Format_0x_lld hex_digits (value AND NOT bits))
                else str)
             else integer value hex_digits)
      else integer value hex_digits)"

definition attributes :: "ReverseOptions \<Rightarrow> SymbolTable \<Rightarrow> SymbolTable \<Rightarrow> Value \<Rightarrow> int \<Rightarrow> string" where
  "attributes opt symbols attrs value hex_digits =
     (if \<not> num_only opt then
        (let all_attributes = foldl (\<lambda>a entry. a OR fst entry) 0 attrs;
             str = symbol opt symbols (value AND NOT all_attributes) hex_digits
         in if (value AND all_attributes) \<noteq> 0
            then str @ '' | '' @ bitMask opt attrs (value AND all_attributes) hex_digits
            else str)
      else integer value hex_digits)"

section \<open>Notions used to state the properties of the formatter\<close>

definition flag_matches :: "Value \<Rightarrow> Value \<times> string \<Rightarrow> bool" where
  "flag_matches value entry = (fst entry \<noteq> 0 \<and> (value AND fst entry) = fst entry)"

definition matched :: "SymbolTable \<Rightarrow> Value \<Rightarrow> SymbolTable" where
  "matched symbols value = filter (flag_matches value) symbols"

text \<open>The strings joined the way \<^verbatim>\<open>bitMask\<close> joins them, from the empty string on.\<close>

definition join_flags :: "string list \<Rightarrow> string" where
  "join_flags ss = foldl append_flag [] ss"

definition matched_bits :: "SymbolTable \<Rightarrow> Value \<Rightarrow> Value" where
  "matched_bits symbols value = foldl (OR) 0 (map fst (matched symbols value))"

definition residual_term :: "SymbolTable \<Rightarrow> Value \<Rightarrow> int \<Rightarrow> string list" where
  "residual_term symbols value hex_digits =
     (if (value AND NOT (matched_bits symbols value)) \<noteq> 0
      then [Format_0x_lld hex_digits (value AND NOT (matched_bits symbols value))] else [])"

definition ident_like :: "string \<Rightarrow> bool" where
  "ident_like s = (s \<noteq> [] \<and> hd s \<notin> set ''-0123456789'')"

text \<open>The strings with \<open>" | "\<close> between them.\<close>

fun join_bar :: "string list \<Rightarrow> string" where
  "join_bar [] = []"
| "join_bar [s] = s"
| "join_bar (s # t # rest) = s @ '' | '' @ join_bar (t # rest)"

definition key_sorted :: "SymbolTable \<Rightarrow> bool" where
  "key_sorted symbols = sorted_wrt (\<lambda>a b. fst a <s fst b) symbols"

section \<open>Extents and their reconciliation\<close>

text \<open>
  \<^verbatim>\<open>class DataStructure\<close>: a name, the address of the first byte and a size in bytes. An
  address is the number of the byte in the memory image. Pointer arithmetic that leaves
  the address space is undefined in C++ and does not arise for structures of a loaded
  module, so addresses and sizes are natural numbers; the two subtractions of
  \<^verbatim>\<open>sortDataStructures\<close> are taken after the sort, where the subtrahend is the smaller
  address.
\<close>

record DataStructure =
  name :: string
  address :: nat
  size_ds :: nat

text \<open>\<^verbatim>\<open>DataStructure::end()\<close>, the address after the last byte.\<close>

definition end_ds :: "DataStructure \<Rightarrow> nat" where
  "end_ds d = address d + size_ds d"

text \<open>The memory image the generator reads, byte by byte.\<close>

type_synonym memory = "nat \<Rightarrow> 8 word"

text \<open>
  Modelled from the spec: \<^verbatim>\<open>IsZero\<close> (winutils.h) is not among the sources. The spec
  reads its result as "every byte strictly between them is zero" and "every byte in the
  gap is zero": all bytes from \<open>start\<close> up to, not including, \<open>fin\<close> are zero, which
  holds of an empty range.
\<close>

definition IsZero :: "memory \<Rightarrow> nat \<Rightarrow> nat \<Rightarrow> bool" where
  "IsZero mem start fin = list_all (\<lambda>a. mem a = 0) [start..<fin]"

text \<open>
  The \<^verbatim>\<open>while\<close> loop of \<^verbatim>\<open>sortDataStructures\<close>. The list \<^verbatim>\<open>_alldata\<close> is, at every
  iteration, the structures before \<^verbatim>\<open>previous\<close>, then \<^verbatim>\<open>previous\<close>, then the
  structures from \<^verbatim>\<open>current\<close> on; the function returns the list from \<^verbatim>\<open>previous\<close> on
  as the loop leaves it. \<^verbatim>\<open>erase\<close> makes the successor the current structure;
  \<^verbatim>\<open>insert\<close> puts the new structure before the current one and the next iteration
  compares the two.
\<close>

function merge_loop :: "memory \<Rightarrow> DataStructure \<Rightarrow> DataStructure list \<Rightarrow> DataStructure list" where
  "merge_loop mem previous [] = [previous]"
| "merge_loop mem previous (current # rest) =
     (let inter_zero = IsZero mem (end_ds previous) (address current) in
      if name previous = name current \<and> (end_ds previous = address current \<or> inter_zero)
      then merge_loop mem (previous\<lparr>size_ds := end_ds current - address previous\<rparr>) rest
      else if end_ds previous < address current
        then previous # merge_loop mem
               \<lparr>name = (if inter_zero then ''Padding'' else ''Unreferenced''),
                address = end_ds previous,
                size_ds = address current - end_ds previous\<rparr> (current # rest)
        else previous # merge_loop mem current rest)"
  by pat_completeness auto
termination
  by (relation "measure (\<lambda>(mem, previous, remaining).
        2 * length remaining +
        (if remaining \<noteq> [] \<and> end_ds previous < address (hd remaining) then 1 else 0))")
     (auto simp: end_ds_def)

declare merge_loop.simps(2) [simp del]

text \<open>
  \<^verbatim>\<open>std::list::sort\<close> is stable and orders by \<^verbatim>\<open>operator<\<close>, the order of the
  addresses. \<^verbatim>\<open>generate\<close> records the main table before it calls for the dump, so the
  list is never empty there. The empty list, on which the C++ loop would step an iterator
  past the end, is given the empty result.
\<close>

definition sortDataStructures :: "memory \<Rightarrow> DataStructure list \<Rightarrow> DataStructure list" where
  "sortDataStructures mem alldata =
     (case sort_key address alldata of
        [] \<Rightarrow> []
      | first # rest \<Rightarrow> merge_loop mem first rest)"

text \<open>Notions used to state the properties of the reconciliation.\<close>

definition synthetic_name :: "string \<Rightarrow> bool" where
  "synthetic_name n = (n = ''Padding'' \<or> n = ''Unreferenced'')"

definition pair_settled :: "memory \<Rightarrow> DataStructure \<Rightarrow> DataStructure \<Rightarrow> bool" where
  "pair_settled mem a b =
     (\<not> (name a = name b \<and> (end_ds a = address b \<or> IsZero mem (end_ds a) (address b)))
      \<and> \<not> end_ds a < address b)"

fun settled :: "memory \<Rightarrow> DataStructure list \<Rightarrow> bool" where
  "settled mem (a # b # rest) = (pair_settled mem a b \<and> settled mem (b # rest))"
| "settled mem _ = True"

definition zero_image :: memory where
  "zero_image = (\<lambda>a. 0)"

text \<open>
  The names under which the generators record a structure: the names \<^verbatim>\<open>generate\<close> passes
  to them, \<open>vk_to_bits\<close>, \<open>"Strings in " + name\<close> for the strings of the three tables of
  names, and \<^verbatim>\<open>Format(L"vk_to_wchar%d", ...)\<close> for the sub-tables.
\<close>

definition recorded_names :: "string list" where
  "recorded_names =
     [''vk_to_bits'', ''char_modifiers'', ''vk_to_wchar'', ''dead_keys'',
      ''key_names'', ''Strings in key_names'', ''key_names_ext'', ''Strings in key_names_ext'',
      ''key_names_dead'', ''Strings in key_names_dead'', ''scancode_to_vk'',
      ''scancode_to_vk_e0'', ''scancode_to_vk_e1'', ''ligatures'', ''kbd_tables'']"

definition recorded_name :: "string \<Rightarrow> bool" where
  "recorded_name n = (n \<in> set recorded_names \<or> take 11 n = ''vk_to_wchar'')"

text \<open>An extent that is not one of the two the reconciliation makes up, and its name and start.\<close>

definition real_extent :: "DataStructure \<Rightarrow> bool" where
  "real_extent d = (\<not> synthetic_name (name d))"

definition name_address :: "DataStructure \<Rightarrow> string \<times> nat" where
  "name_address d = (name d, address d)"

section \<open>The symbol catalog\<close>

text \<open>
  The symbol tables are constants of the program. The keys of most of them are macros of
  the Windows headers (\<^verbatim>\<open>SYM(KBDSHIFT)\<close>, \<^verbatim>\<open>SYM(VK_TAB)\<close>, \<^verbatim>\<open>SYM(WCH_NONE)\<close>, ...),
  which are not among the sources, so the formatters and generators below take the tables
  as a parameter: what is proved holds for every value of the macros.
  \<open>locale_flags_symbols\<close> and \<open>kbd_version_symbols\<close> are the two tables that
  \<^verbatim>\<open>localeFlags\<close> builds in place.
\<close>

record Catalog =
  shift_state_symbols :: SymbolTable
  vk_symbols :: SymbolTable
  vk_flags_symbols :: SymbolTable
  vk_attr_symbols :: SymbolTable
  wchar_symbols :: SymbolTable
  wchar_descriptions :: SymbolTable
  locale_flags_symbols :: SymbolTable
  kbd_version_symbols :: SymbolTable

text \<open>\<^verbatim>\<open>wchar_literals\<close> has character keys only: tab, line feed, return, double quote, backslash.\<close>

definition wchar_literals :: SymbolTable where
  "wchar_literals = SymbolTable_of
     [(0x09, [CHR 0x5C, CHR ''t'']),
      (0x0A, [CHR 0x5C, CHR ''n'']),
      (0x0D, [CHR 0x5C, CHR ''r'']),
      (0x22, [CHR 0x5C, CHR 0x22]),
      (0x5C, [CHR 0x5C, CHR 0x5C])]"

section \<open>Characters and strings\<close>

text \<open>
  \<^verbatim>\<open>wchar\<close> returns the text and appends to \<^verbatim>\<open>descs\<close>, which is returned with it.
  \<open>0x27\<close> is the quote and \<open>0x5C\<close> the backslash.
\<close>

definition wchar :: "ReverseOptions \<Rightarrow> Catalog \<Rightarrow> 16 word \<Rightarrow> string list \<Rightarrow> string \<times> string list" where
  "wchar opt cat value descs =
     (case (if \<not> num_only opt then map_of (wchar_symbols cat) (ucast value) else None) of
        Some s \<Rightarrow> (s, descs)
      | None \<Rightarrow>
          if value = 0x27 \<or> value = 0x5C
          then ([CHR ''L'', CHR 0x27, CHR 0x5C, char_of (unat value), CHR 0x27], descs)
          else if 0x20 \<le> value \<and> value < 0x7F
          then ([CHR ''L'', CHR 0x27, char_of (unat value), CHR 0x27], descs)
          else (Format_0x_04X value,
                if \<not> num_only opt
                then (case map_of (wchar_descriptions cat) (ucast value) of
                        Some d \<Rightarrow> descs @ [d]
                      | None \<Rightarrow> descs)
                else descs))"

text \<open>
  \<^verbatim>\<open>wstring\<close> takes a null pointer (\<open>None\<close>) or a string, given by its characters before
  the terminating zero. \<^verbatim>\<open>_opt\<close> is in scope of the method, which never reads it.
\<close>

fun wstring_chars :: "16 word list \<Rightarrow> string" where
  "wstring_chars [] = []"
| "wstring_chars (c # cs) =
     (case map_of wchar_literals (ucast c) of
        Some s \<Rightarrow> s
      | None \<Rightarrow> if 0x20 \<le> c \<and> c < 0x7F then [char_of (unat c)] else Format_x_04x c)
     @ wstring_chars cs"

definition wstring :: "ReverseOptions \<Rightarrow> 16 word list option \<Rightarrow> string" where
  "wstring opt value =
     (case value of
        None \<Rightarrow> ''NULL''
      | Some cs \<Rightarrow> [CHR ''L'', CHR 0x22] @ wstring_chars cs @ [CHR 0x22])"

text \<open>The options after \<^verbatim>\<open>-n\<close>, and a catalog without any symbol.\<close>

definition numeric_options :: ReverseOptions where
  "numeric_options = \<lparr>kbd_type = 0, num_only = True, hexa_dump = False\<rparr>"

definition empty_catalog :: Catalog where
  "empty_catalog = \<lparr>shift_state_symbols = [], vk_symbols = [], vk_flags_symbols = [],
     vk_attr_symbols = [], wchar_symbols = [], wchar_descriptions = [],
     locale_flags_symbols = [], kbd_version_symbols = []\<rparr>"

section \<open>Walks over sentinel-terminated arrays\<close>

text \<open>
  The tables are read from the memory of the loaded module. The image is the mapped region
  that holds them, a finite run of bytes, an address being the offset of a byte in it.
  Reading outside the image is an access violation, which ends the program: a walk that
  meets one has the fault for its result.
\<close>

datatype fault = AccessViolation

type_synonym image = "8 word list"

definition read8 :: "image \<Rightarrow> nat \<Rightarrow> fault + 8 word" where
  "read8 img a = (if a < length img then Inr (img ! a) else Inl AccessViolation)"

text \<open>A \<^verbatim>\<open>WCHAR\<close> in memory, low byte first.\<close>

definition read16 :: "image \<Rightarrow> nat \<Rightarrow> fault + 16 word" where
  "read16 img a =
     (case read8 img a of
        Inl f \<Rightarrow> Inl f
      | Inr lo \<Rightarrow>
          (case read8 img (a + 1) of
             Inl f \<Rightarrow> Inl f
           | Inr hi \<Rightarrow> Inr (ucast lo OR push_bit 8 (ucast hi))))"

text \<open>
  Modelled from the spec: \<^verbatim>\<open>Join\<close> (strutils.h) and \<^verbatim>\<open>Grid\<close> (grid.h) are not among
  the sources. \<open>Join\<close> puts the separator between the strings; a grid is its lines, each
  the list of its columns, \<^verbatim>\<open>addLine\<close> appends a line and \<^verbatim>\<open>addColumn\<close> appends a
  column to the last line. \<^verbatim>\<open>addUnderlines\<close> is read off the file that the generator left
  in \<^verbatim>\<open>src/keyboards/kbdusmaruska/kbdusmaruska.c\<close> (lines 354-355): it appends one line,
  the columns it is given followed by a run of dashes as long as each further column of
  the line above. The generator of the record walk takes this operation as a parameter
  (\<open>underlines\<close>), so that what is proved of the walk holds whatever the operation does.
\<close>

fun Join :: "string list \<Rightarrow> string \<Rightarrow> string" where
  "Join [] sep = []"
| "Join [s] sep = s"
| "Join (s # t # rest) sep = s @ sep @ Join (t # rest) sep"

type_synonym Grid = "string list list"

definition addUnderlines :: "Grid \<Rightarrow> string list \<Rightarrow> Grid" where
  "addUnderlines grid first =
     grid @ [first @ map (\<lambda>col. replicate (length col) CHR ''-'') (drop (length first) (last grid))]"

definition addColumn :: "Grid \<Rightarrow> string \<Rightarrow> Grid" where
  "addColumn grid col = (if grid = [] then [[col]] else butlast grid @ [last grid @ [col]])"

text \<open>
  \<^verbatim>\<open>genVkToBits\<close>: \<^verbatim>\<open>VK_TO_BIT\<close> is two bytes, \<^verbatim>\<open>Vk\<close> and \<^verbatim>\<open>ModBits\<close>. The loop
  \<^verbatim>\<open>for (; vtb->Vk != 0; vtb++)\<close> has no other exit; it is a partial function, whose value
  \<open>None\<close> stands for a loop that does not return. The generator returns the grid and the
  extent it records; the text written to the output is not modelled.
\<close>

definition vk_to_bit_line :: "ReverseOptions \<Rightarrow> Catalog \<Rightarrow> 8 word \<Rightarrow> 8 word \<Rightarrow> string list" where
  "vk_to_bit_line opt cat Vk ModBits =
     [''{'' @ symbol opt (vk_symbols cat) (ucast Vk) 2 @ '','',
      bitMask opt (shift_state_symbols cat) (ucast ModBits) 4 @ ''},'']"

partial_function (option) genVkToBits_loop ::
  "ReverseOptions \<Rightarrow> Catalog \<Rightarrow> image \<Rightarrow> nat \<Rightarrow> Grid \<Rightarrow> (fault + Grid \<times> nat) option" where
  "genVkToBits_loop opt cat img vtb grid =
     (case read8 img vtb of
        Inl f \<Rightarrow> Some (Inl f)
      | Inr Vk \<Rightarrow>
          if Vk \<noteq> 0 then
            (case read8 img (vtb + 1) of
               Inl f \<Rightarrow> Some (Inl f)
             | Inr ModBits \<Rightarrow>
                 genVkToBits_loop opt cat img (vtb + 2) (grid @ [vk_to_bit_line opt cat Vk ModBits]))
          else Some (Inr (grid, vtb)))"

definition genVkToBits ::
  "ReverseOptions \<Rightarrow> Catalog \<Rightarrow> image \<Rightarrow> nat \<Rightarrow> string
     \<Rightarrow> (fault + Grid \<times> DataStructure) option" where
  "genVkToBits opt cat img vtb nm =
     (case genVkToBits_loop opt cat img vtb [] of
        None \<Rightarrow> None
      | Some (Inl f) \<Rightarrow> Some (Inl f)
      | Some (Inr (grid, vtb')) \<Rightarrow>
          Some (Inr (grid @ [[''{0,'', ''0}'']],
                     \<lparr>name = nm, address = vtb, size_ds = (vtb' + 2) - vtb\<rparr>)))"

text \<open>
  \<^verbatim>\<open>MODIFIERS\<close> (kbd.h), as \<^verbatim>\<open>genSubVkToWchar\<close> receives it by reference:
  \<^verbatim>\<open>ModNumber\<close> is the array at its end, by index.
\<close>

record MODIFIERS =
  pVkToBit :: nat
  wMaxModBits :: "16 word"
  ModNumber :: "nat \<Rightarrow> 8 word"

definition modifiers_headers :: "string list" where
  "modifiers_headers =
     ['''', ''Shift'', ''Ctrl'', ''Shift/Ctrl'', ''Alt'', ''Shift/Alt'', ''Ctrl/Alt'',
      ''Shift/Ctrl/Alt'']"

text \<open>
  \<^verbatim>\<open>genSubVkToWchar\<close>, the head of the grid: the line \<^verbatim>\<open>headers\<close> of \<open>2 + count\<close> columns
  and the loop \<^verbatim>\<open>for (i = 0; i <= mods.wMaxModBits && i < modifiers_headers.size(); ++i)\<close>
  that names the columns. The grid starts with this line and its underlines when a column
  has a name and \<^verbatim>\<open>-n\<close> is off.
\<close>

fun headers_loop :: "MODIFIERS \<Rightarrow> nat list \<Rightarrow> string list \<Rightarrow> bool \<Rightarrow> string list \<times> bool" where
  "headers_loop mods [] headers not_empty = (headers, not_empty)"
| "headers_loop mods (i # is) headers not_empty =
     (let index = unat (ModNumber mods i) in
      if 2 + index < length headers
      then headers_loop mods is (headers[2 + index := modifiers_headers ! i])
             (not_empty \<or> modifiers_headers ! i \<noteq> [])
      else headers_loop mods is headers not_empty)"

definition header_grid ::
  "ReverseOptions \<Rightarrow> (Grid \<Rightarrow> string list \<Rightarrow> Grid) \<Rightarrow> nat \<Rightarrow> MODIFIERS \<Rightarrow> Grid" where
  "header_grid opt underlines count mods =
     (let (headers, not_empty) =
            headers_loop mods [0..<min (unat (wMaxModBits mods) + 1) (length modifiers_headers)]
              (''//'' # replicate (1 + count) []) False
      in if not_empty \<and> \<not> num_only opt then underlines [headers] [''//''] else [])"

text \<open>
  \<^verbatim>\<open>genSubVkToWchar\<close>, the walk: a record is \<^verbatim>\<open>VirtualKey\<close>, \<^verbatim>\<open>Attributes\<close> (a byte
  each) and \<^verbatim>\<open>count\<close> characters; the next record is \<^verbatim>\<open>size\<close> bytes further
  (\<open>cbSize\<close> here). \<open>wch_columns\<close> is the inner \<^verbatim>\<open>for\<close> loop over the characters of
  one record, \<open>vk_to_wchars_line\<close> the body of the \<^verbatim>\<open>while\<close> loop before the step to
  the next record.
\<close>

fun wch_columns ::
  "ReverseOptions \<Rightarrow> Catalog \<Rightarrow> image \<Rightarrow> nat \<Rightarrow> nat \<Rightarrow> nat list \<Rightarrow> Grid \<Rightarrow> string list
     \<Rightarrow> fault + Grid \<times> string list" where
  "wch_columns opt cat img vtwc count [] grid comments = Inr (grid, comments)"
| "wch_columns opt cat img vtwc count (i # is) grid comments =
     (case read16 img (vtwc + 2 + 2 * i) of
        Inl f \<Rightarrow> Inl f
      | Inr wch \<Rightarrow>
          (let (str, comments') = wchar opt cat wch comments;
               str = (if i = 0 then CHR ''{'' # str else str);
               str = str @ (if i = count - 1 then ''}},'' else '','')
           in wch_columns opt cat img vtwc count is (addColumn grid str) comments'))"

definition vk_to_wchars_line ::
  "ReverseOptions \<Rightarrow> Catalog \<Rightarrow> image \<Rightarrow> 8 word \<Rightarrow> nat \<Rightarrow> nat \<Rightarrow> Grid \<Rightarrow> fault + Grid" where
  "vk_to_wchars_line opt cat img VirtualKey vtwc count grid =
     (case read8 img (vtwc + 1) of
        Inl f \<Rightarrow> Inl f
      | Inr Attributes \<Rightarrow>
          (case wch_columns opt cat img vtwc count [0..<count]
                  (grid @ [[''{'' @ symbol opt (vk_symbols cat) (ucast VirtualKey) 2 @ '','',
                            bitMask opt (vk_attr_symbols cat) (ucast Attributes) 2 @ '','']]) [] of
             Inl f \<Rightarrow> Inl f
           | Inr (grid, comments) \<Rightarrow>
               Inr (if comments \<noteq> [] then addColumn grid (''// '' @ Join comments '', '')
                    else grid)))"

partial_function (option) genSubVkToWchar_loop ::
  "ReverseOptions \<Rightarrow> Catalog \<Rightarrow> image \<Rightarrow> nat \<Rightarrow> nat \<Rightarrow> nat \<Rightarrow> Grid
     \<Rightarrow> (fault + Grid \<times> nat) option" where
  "genSubVkToWchar_loop opt cat img vtwc count cbSize grid =
     (case read8 img vtwc of
        Inl f \<Rightarrow> Some (Inl f)
      | Inr VirtualKey \<Rightarrow>
          if VirtualKey \<noteq> 0 then
            (case vk_to_wchars_line opt cat img VirtualKey vtwc count grid of
               Inl f \<Rightarrow> Some (Inl f)
             | Inr grid' \<Rightarrow> genSubVkToWchar_loop opt cat img (vtwc + cbSize) count cbSize grid')
          else Some (Inr (grid, vtwc)))"

definition genSubVkToWchar ::
  "ReverseOptions \<Rightarrow> Catalog \<Rightarrow> (Grid \<Rightarrow> string list \<Rightarrow> Grid) \<Rightarrow> image \<Rightarrow> nat \<Rightarrow> nat \<Rightarrow> nat
     \<Rightarrow> string \<Rightarrow> MODIFIERS \<Rightarrow> (fault + Grid \<times> DataStructure) option" where
  "genSubVkToWchar opt cat underlines img vtwc count cbSize nm mods =
     (case genSubVkToWchar_loop opt cat img vtwc count cbSize
             (header_grid opt underlines count mods) of
        None \<Rightarrow> None
      | Some (Inl f) \<Rightarrow> Some (Inl f)
      | Some (Inr (grid, vtwc')) \<Rightarrow>
          Some (Inr (grid @ [''{0,'' # replicate count ''0,'' @ [''0}'']],
                     \<lparr>name = nm, address = vtwc, size_ds = (vtwc' + cbSize) - vtwc\<rparr>)))"

text \<open>
  Notions used to state the properties of the walks: record \<open>n\<close> is the first one with a
  zero key and the records before it lie in the image; the lines of the first \<open>n\<close>
  records.
\<close>

definition vk_to_bit_sentinel :: "image \<Rightarrow> nat \<Rightarrow> nat \<Rightarrow> bool" where
  "vk_to_bit_sentinel img vtb n =
     (list_all (\<lambda>i. img ! (vtb + 2 * i) \<noteq> 0) [0..<n]
      \<and> vtb + 2 * n < length img \<and> img ! (vtb + 2 * n) = 0)"

fun vk_to_bit_lines :: "ReverseOptions \<Rightarrow> Catalog \<Rightarrow> image \<Rightarrow> nat \<Rightarrow> nat \<Rightarrow> Grid \<Rightarrow> Grid" where
  "vk_to_bit_lines opt cat img vtb 0 grid = grid"
| "vk_to_bit_lines opt cat img vtb (Suc n) grid =
     vk_to_bit_lines opt cat img (vtb + 2) n
       (grid @ [vk_to_bit_line opt cat (img ! vtb) (img ! (vtb + 1))])"

definition vk_to_wchars_sentinel :: "image \<Rightarrow> nat \<Rightarrow> nat \<Rightarrow> nat \<Rightarrow> nat \<Rightarrow> bool" where
  "vk_to_wchars_sentinel img vtwc count cbSize n =
     (list_all (\<lambda>i. img ! (vtwc + cbSize * i) \<noteq> 0
                   \<and> vtwc + cbSize * i + 2 + 2 * count \<le> length img) [0..<n]
      \<and> vtwc + cbSize * n < length img \<and> img ! (vtwc + cbSize * n) = 0)"

fun vk_to_wchars_lines ::
  "ReverseOptions \<Rightarrow> Catalog \<Rightarrow> image \<Rightarrow> nat \<Rightarrow> nat \<Rightarrow> nat \<Rightarrow> nat \<Rightarrow> Grid \<Rightarrow> fault + Grid" where
  "vk_to_wchars_lines opt cat img vtwc count cbSize 0 grid = Inr grid"
| "vk_to_wchars_lines opt cat img vtwc count cbSize (Suc n) grid =
     (case vk_to_wchars_line opt cat img (img ! vtwc) vtwc count grid of
        Inl f \<Rightarrow> Inl f
      | Inr grid' \<Rightarrow> vk_to_wchars_lines opt cat img (vtwc + cbSize) count cbSize n grid')"

text \<open>
  A modifier table with two columns, the base one and the one of Shift; every other
  combination is \<^verbatim>\<open>SHFT_INVALID\<close>.
\<close>

definition shift_modifiers :: MODIFIERS where
  "shift_modifiers =
     \<lparr>pVkToBit = 0, wMaxModBits = 1,
      ModNumber = (\<lambda>i. if i = 0 then 0 else if i = 1 then 1 else 0x0F)\<rparr>"

section \<open>The main table\<close>

text \<open>
  \<^verbatim>\<open>LOWORD\<close> and \<^verbatim>\<open>HIWORD\<close> are the low and the high 16 bits of the 32-bit flags.
\<close>

definition localeFlags :: "ReverseOptions \<Rightarrow> Catalog \<Rightarrow> 32 word \<Rightarrow> string" where
  "localeFlags opt cat flags =
     (if num_only opt then Format_0x_08X flags
      else
        (let lostr = bitMask opt (locale_flags_symbols cat) (ucast (ucast flags :: 16 word)) 4;
             histr = symbol opt (kbd_version_symbols cat)
                       (ucast (ucast (drop_bit 16 flags) :: 16 word)) 4
         in ''MAKELONG('' @ lostr @ '', '' @ histr @ '')''))"

definition pointer :: "nat \<Rightarrow> string \<Rightarrow> string" where
  "pointer value nm = (if value = 0 then ''NULL'' else nm)"

text \<open>
  \<^verbatim>\<open>KBDTABLES\<close> (kbd.h of the Windows SDK): the fields \<^verbatim>\<open>generate\<close> reads, a pointer
  being the address it holds, 0 for \<^verbatim>\<open>nullptr\<close>.
\<close>

record KBDTABLES =
  pCharModifiers :: nat
  pVkToWcharTable :: nat
  pDeadKey :: nat
  pKeyNames :: nat
  pKeyNamesExt :: nat
  pKeyNamesDead :: nat
  pusVSCtoVK :: nat
  bMaxVSCtoVK :: "8 word"
  pVSCtoVK_E0 :: nat
  pVSCtoVK_E1 :: nat
  fLocaleFlags :: "32 word"
  nLgMax :: "8 word"
  cbLgEntry :: "8 word"
  pLigature :: nat
  dwType :: "32 word"
  dwSubType :: "32 word"

text \<open>An unsigned integer written to the output stream.\<close>

definition unsigned_decimal :: "nat \<Rightarrow> string" where
  "unsigned_decimal n = digits digit_char 10 n"

text \<open>
  \<^verbatim>\<open>generate\<close>, in the parts that report the scalars of the main table: the local
  constant \<^verbatim>\<open>kbd_type\<close>, the line that defines \<^verbatim>\<open>KBD_TYPE\<close> in the header of the file,
  and the lines of the declaration of \<^verbatim>\<open>kbd_tables\<close>. The calls of the generators of
  the tables, between the two, write their own declarations and do not change these lines.
\<close>

definition generate_kbd_type :: "ReverseOptions \<Rightarrow> KBDTABLES \<Rightarrow> int" where
  "generate_kbd_type opt tables =
     (if kbd_type opt > 0 then kbd_type opt
      else if dwType tables > 0 \<and> dwType tables < 48 then uint (dwType tables) else 4)"

definition generate_define :: "ReverseOptions \<Rightarrow> KBDTABLES \<Rightarrow> string" where
  "generate_define opt tables = ''#define KBD_TYPE '' @ signed_decimal (generate_kbd_type opt tables)"

definition generate_main_table :: "ReverseOptions \<Rightarrow> Catalog \<Rightarrow> KBDTABLES \<Rightarrow> string list" where
  "generate_main_table opt cat tables =
     [''static KBDTABLES kbd_tables = {'',
      ''    .pCharModifiers  = '' @ pointer (pCharModifiers tables) ''&char_modifiers'' @ '','',
      ''    .pVkToWcharTable = '' @ pointer (pVkToWcharTable tables) ''vk_to_wchar'' @ '','',
      ''    .pDeadKey        = '' @ pointer (pDeadKey tables) ''dead_keys'' @ '','',
      ''    .pKeyNames       = '' @ pointer (pKeyNames tables) ''key_names'' @ '','',
      ''    .pKeyNamesExt    = '' @ pointer (pKeyNamesExt tables) ''key_names_ext'' @ '','',
      ''    .pKeyNamesDead   = '' @ pointer (pKeyNamesDead tables) ''key_names_dead'' @ '','',
      ''    .pusVSCtoVK      = '' @ pointer (pusVSCtoVK tables) ''scancode_to_vk'' @ '','',
      ''    .bMaxVSCtoVK     = '' @ (if pusVSCtoVK tables = 0 then ''0,''
                                     else ''ARRAYSIZE('' @ ''scancode_to_vk'' @ ''),''),
      ''    .pVSCtoVK_E0     = '' @ pointer (pVSCtoVK_E0 tables) ''scancode_to_vk_e0'' @ '','',
      ''    .pVSCtoVK_E1     = '' @ pointer (pVSCtoVK_E1 tables) ''scancode_to_vk_e1'' @ '','',
      ''    .fLocaleFlags    = '' @ localeFlags opt cat (fLocaleFlags tables) @ '','',
      ''    .nLgMax          = '' @ unsigned_decimal (unat (nLgMax tables)) @ '','',
      ''    .cbLgEntry       = '' @ (if pLigature tables = 0 then ''0,''
                                     else ''sizeof('' @ ''ligatures'' @ ''[0]),''),
      ''    .pLigature       = '' @ pointer (pLigature tables) (''(PLIGATURE1)'' @ ''ligatures'') @ '','',
      ''    .dwType          = '' @ unsigned_decimal (unat (dwType tables)) @ '','',
      ''    .dwSubType       = '' @ unsigned_decimal (unat (dwSubType tables)) @ '','',
      ''};'']"

text \<open>A main table used as a concrete input.\<close>

definition sample_tables :: KBDTABLES where
  "sample_tables = \<lparr>pCharModifiers = 0x1000, pVkToWcharTable = 0x1100, pDeadKey = 0,
     pKeyNames = 0x1200, pKeyNamesExt = 0x1300, pKeyNamesDead = 0, pusVSCtoVK = 0,
     bMaxVSCtoVK = 0x7F, pVSCtoVK_E0 = 0x1400, pVSCtoVK_E1 = 0x1500, fLocaleFlags = 0x10001,
     nLgMax = 0, cbLgEntry = 6, pLigature = 0, dwType = 100, dwSubType = 0\<rparr>"

section \<open>Reading the main table back\<close>









definition MAKELONG :: "nat \<Rightarrow> nat \<Rightarrow> nat" where
  "MAKELONG a b = (a mod 2 ^ 16) OR push_bit 16 (b mod 2 ^ 16)"


text \<open>
  A line of the declaration of \<^verbatim>\<open>kbd_tables\<close> is the name of the field, 23 characters
  up to the blank after \<open>=\<close>, then the expression, then a comma.
\<close>

definition field_text :: "string \<Rightarrow> string" where
  "field_text line = butlast (drop 23 line)"



section \<open>Evaluating the formats\<close>

text \<open>
  The equation of \<open>digits\<close> as two conditional rules: they rewrite only where the
  comparison with the base is decided.
\<close>

lemma digits_small: "n < b \<Longrightarrow> digits dc b n = [dc n]"
  by (subst digits.simps) simp

lemma digits_step:
  "b \<le> n \<Longrightarrow> 2 \<le> b \<Longrightarrow> digits dc b n = digits dc b (n div b) @ [dc (n mod b)]"
  by (subst digits.simps) simp

lemma replicate_numeral: "replicate (numeral k) x = x # replicate (pred_numeral k) x"
  by (simp add: numeral_eq_Suc)

lemmas format_eval_defs = replicate_numeral integer_def Format_lld_def Format_0x_llX_def Format_0x_lld_def
  Format_0x_04X_def Format_0x_08X_def Format_x_04x_def signed_decimal_def
  signed_decimal_width_def pad_left_def digits_small digits_step digit_char_def
  digit_char_lower_def

section \<open>Properties of the value formatter\<close>

lemma bitMask_loop_Inr:
  "value \<noteq> 0 \<or> map_of symbols 0 = None \<Longrightarrow>
   bitMask_loop symbols value str bits =
     Inr (foldl append_flag str (map snd (matched symbols value)),
          foldl (OR) bits (map fst (matched symbols value)))"
proof (induction symbols arbitrary: str bits)
  case Nil
  show ?case by (simp add: matched_def)
next
  case (Cons e rest)
  from Cons.prems have nz: "\<not> (fst e = 0 \<and> value = 0)"
    by (cases e) (auto split: if_splits)
  from Cons.prems have rest: "value \<noteq> 0 \<or> map_of rest 0 = None"
    by (cases e) (auto split: if_splits)
  show ?case
    using nz Cons.IH [OF rest] by (simp add: matched_def flag_matches_def)
qed

lemma bitMask_loop_Inl:
  "map_of symbols 0 = Some n \<Longrightarrow> bitMask_loop symbols 0 str bits = Inl n"
proof (induction symbols arbitrary: str bits)
  case Nil
  then show ?case by simp
next
  case (Cons e rest)
  show ?case
  proof (cases "fst e = 0")
    case True
    with Cons.prems show ?thesis by (cases e) simp
  next
    case False
    with Cons.prems have "map_of rest 0 = Some n" by (cases e) (simp split: if_splits)
    with False Cons.IH show ?thesis by simp
  qed
qed

lemma foldl_OR_eq_0: "foldl (OR) (b::Value) ks = 0 \<longleftrightarrow> b = 0 \<and> (\<forall>k \<in> set ks. k = 0)"
  by (induction ks arbitrary: b) (auto simp: or_eq_0_iff)

lemma matched_bits_eq_0: "matched_bits symbols value = 0 \<longleftrightarrow> matched symbols value = []"
proof -
  have "\<forall>k \<in> set (map fst (matched symbols value)). k \<noteq> 0"
    by (auto simp: matched_def flag_matches_def)
  then show ?thesis
    unfolding matched_bits_def foldl_OR_eq_0 by (cases "matched symbols value") auto
qed

lemma matched_zero: "matched symbols 0 = []"
  by (induction symbols) (auto simp: matched_def flag_matches_def)

lemma bitMask_matched:
  assumes "\<not> num_only opt" "matched symbols value \<noteq> []"
  shows "bitMask opt symbols value hex_digits =
           join_flags (map snd (matched symbols value) @ residual_term symbols value hex_digits)"
proof -
  from assms(2) have "value \<noteq> 0" using matched_zero by metis
  then have loop: "bitMask_loop symbols value [] 0 =
     Inr (join_flags (map snd (matched symbols value)), matched_bits symbols value)"
    by (simp add: bitMask_loop_Inr join_flags_def matched_bits_def)
  from assms(2) have "matched_bits symbols value \<noteq> 0" by (simp add: matched_bits_eq_0)
  then show ?thesis
    using assms(1) by (simp add: bitMask_def loop residual_term_def join_flags_def)
qed

lemma bitMask_unmatched:
  assumes "\<not> num_only opt" "matched symbols value = []" "value \<noteq> 0 \<or> map_of symbols 0 = None"
  shows "bitMask opt symbols value hex_digits = integer value hex_digits"
proof -
  from assms(3) have "bitMask_loop symbols value [] 0 =
     Inr (join_flags (map snd (matched symbols value)), matched_bits symbols value)"
    by (simp add: bitMask_loop_Inr join_flags_def matched_bits_def)
  then show ?thesis using assms(1,2) by (simp add: bitMask_def matched_bits_def)
qed

lemma bitMask_zero_symbol:
  assumes "\<not> num_only opt" "map_of symbols 0 = Some n"
  shows "bitMask opt symbols 0 hex_digits = n"
  using assms by (simp add: bitMask_def bitMask_loop_Inl)

lemma digits_hd: "2 \<le> b \<Longrightarrow> \<exists>k < b. \<exists>rest. digits dc b n = dc k # rest"
proof (induction dc b n rule: digits.induct)
  case (1 dc b n)
  show ?case
  proof (cases "n < b")
    case True
    then show ?thesis by (subst digits.simps) auto
  next
    case False
    with 1 obtain k rest where "k < b" "digits dc b (n div b) = dc k # rest" by auto
    with False "1.prems" show ?thesis by (subst digits.simps) auto
  qed
qed

lemma digit_char_decimal: "k < 10 \<Longrightarrow> digit_char k \<in> set ''0123456789''"
proof -
  assume k: "k < 10"
  have "''0123456789'' ! k \<in> set ''0123456789''"
    using k by (intro nth_mem) simp
  moreover have "''0123456789ABCDEF'' ! k = (''0123456789'' @ ''ABCDEF'') ! k" by simp
  then have "''0123456789ABCDEF'' ! k = ''0123456789'' ! k"
    using k by (simp only: nth_append) simp
  ultimately show ?thesis by (simp only: digit_char_def)
qed

lemma integer_hd: "\<exists>c rest. integer value hex_digits = c # rest \<and> c \<in> set ''-0123456789''"
proof (cases "hex_digits \<le> 0")
  case True
  show ?thesis
  proof (cases "sint value < 0")
    case neg: True
    with True show ?thesis by (simp add: integer_def Format_lld_def signed_decimal_def)
  next
    case False
    obtain k rest where k: "k < 10" "digits digit_char 10 (nat (sint value)) = digit_char k # rest"
      using digits_hd [of 10 digit_char "nat (sint value)"] by auto
    have "integer value hex_digits = digit_char k # rest"
      using False True k(2) by (simp only: integer_def Format_lld_def signed_decimal_def if_True if_False)
    with digit_char_decimal [OF k(1)] show ?thesis by simp
  qed
next
  case False
  then show ?thesis by (simp add: integer_def Format_0x_llX_def)
qed

lemma foldl_append_flag_hd:
  "str \<noteq> [] \<Longrightarrow> \<exists>rest. foldl append_flag str ss = hd str # rest"
proof (induction ss arbitrary: str)
  case Nil
  then show ?case by (cases str) auto
next
  case (Cons s ss)
  have "append_flag str s \<noteq> []" "hd (append_flag str s) = hd str"
    using Cons.prems by (simp_all add: append_flag_def)
  with Cons.IH [of "append_flag str s"] show ?case by simp
qed

lemma join_flags_hd:
  "ss \<noteq> [] \<Longrightarrow> hd ss \<noteq> [] \<Longrightarrow> \<exists>rest. join_flags (ss @ ts) = hd (hd ss) # rest"
proof -
  assume "ss \<noteq> []" "hd ss \<noteq> []"
  then obtain s ss' where ss: "ss = s # ss'" "s \<noteq> []" by (cases ss) auto
  then show ?thesis
    using foldl_append_flag_hd [of s "ss' @ ts"] by (simp add: join_flags_def append_flag_def)
qed

lemma join_bar_Cons_append:
  "join_bar ((a @ '' | '' @ s) # ss) = a @ '' | '' @ join_bar (s # ss)"
  by (cases ss) simp_all

lemma foldl_append_flag_join_bar:
  "str \<noteq> [] \<Longrightarrow> foldl append_flag str ss = join_bar (str # ss)"
proof (induction ss arbitrary: str)
  case Nil
  show ?case by simp
next
  case (Cons s ss)
  have "foldl append_flag str (s # ss) = foldl append_flag (str @ '' | '' @ s) ss"
    using Cons.prems by (simp add: append_flag_def)
  also have "\<dots> = join_bar ((str @ '' | '' @ s) # ss)"
    by (rule Cons.IH) simp
  also have "\<dots> = join_bar (str # s # ss)"
    by (simp only: join_bar_Cons_append join_bar.simps)
  finally show ?case .
qed

lemma join_flags_join_bar: "ss = [] \<or> hd ss \<noteq> [] \<Longrightarrow> join_flags ss = join_bar ss"
proof (cases ss)
  case Nil
  then show ?thesis by (simp add: join_flags_def)
next
  case (Cons s ss')
  assume "ss = [] \<or> hd ss \<noteq> []"
  with Cons have "s \<noteq> []" by simp
  then show ?thesis
    using foldl_append_flag_join_bar [of s ss'] Cons by (simp add: join_flags_def append_flag_def)
qed

lemma bitMask_matched_not_integer:
  assumes "\<not> num_only opt" "matched symbols value \<noteq> []"
      and "\<forall>entry \<in> set symbols. ident_like (snd entry)"
  shows "bitMask opt symbols value hex_digits \<noteq> integer value hex_digits"
proof -
  let ?m = "map snd (matched symbols value)"
  from assms(2) have ne: "?m \<noteq> []" by simp
  have "hd (matched symbols value) \<in> set symbols"
    using assms(2) by (metis (no_types) filter_is_subset hd_in_set matched_def subsetD)
  with assms(3) have id: "ident_like (hd ?m)" using assms(2) by (simp add: hd_map)
  then obtain rest where "join_flags (?m @ residual_term symbols value hex_digits) = hd (hd ?m) # rest"
    using join_flags_hd [OF ne] by (auto simp: ident_like_def)
  then have "bitMask opt symbols value hex_digits = hd (hd ?m) # rest"
    using bitMask_matched [OF assms(1,2)] by simp
  moreover obtain c rest' where "integer value hex_digits = c # rest'" "c \<in> set ''-0123456789''"
    using integer_hd by blast
  ultimately show ?thesis using id by (auto simp: ident_like_def)
qed

lemma set_map_insert: "set (map_insert e m) \<subseteq> insert e (set m)"
  by (induction m) auto

lemma key_sorted_map_insert: "key_sorted m \<Longrightarrow> key_sorted (map_insert e m)"
proof (induction m)
  case Nil
  then show ?case by (simp add: key_sorted_def)
next
  case (Cons e' rest)
  then have rest: "key_sorted rest" and above: "\<forall>x \<in> set rest. fst e' <s fst x"
    by (simp_all add: key_sorted_def)
  show ?case
  proof (cases "fst e = fst e'")
    case True
    with Cons.prems show ?thesis by simp
  next
    case False
    show ?thesis
    proof (cases "fst e <s fst e'")
      case True
      with above have "\<forall>x \<in> set rest. fst e <s fst x"
        by (auto simp: word_sless_alt)
      with True False Cons.prems show ?thesis by (simp add: key_sorted_def)
    next
      case nless: False
      with False have "fst e' <s fst e"
        using signed_word_eqI [of "fst e" "fst e'", where ?'a = int]
        by (auto simp: word_sless_alt not_less order_le_less)
      with above set_map_insert [of e rest] have "\<forall>x \<in> set (map_insert e rest). fst e' <s fst x"
        by auto
      with nless False Cons.IH [OF rest] show ?thesis by (simp add: key_sorted_def)
    qed
  qed
qed

lemma map_of_above: "\<forall>x \<in> set m. k <s fst x \<Longrightarrow> map_of m k = None"
  by (induction m) (auto simp: word_sless_alt)

lemma map_of_map_insert:
  "key_sorted m \<Longrightarrow>
   map_of (map_insert e m) k = (if k = fst e \<and> map_of m k = None then Some (snd e) else map_of m k)"
proof (induction m)
  case Nil
  then show ?case by (cases e) simp
next
  case (Cons e' rest)
  then have rest: "key_sorted rest" and above: "\<forall>x \<in> set rest. fst e' <s fst x"
    by (simp_all add: key_sorted_def)
  show ?case
  proof (cases "fst e = fst e'")
    case True
    then show ?thesis by (cases e') auto
  next
    case False
    show ?thesis
    proof (cases "fst e <s fst e'")
      case True
      with above have "\<forall>x \<in> set rest. fst e <s fst x"
        by (auto simp: word_sless_alt)
      then have "map_of rest (fst e) = None" by (rule map_of_above)
      with True False show ?thesis by (cases e; cases e') auto
    next
      case nless: False
      with False Cons.IH [OF rest] show ?thesis by (cases e; cases e') auto
    qed
  qed
qed

lemma foldl_map_insert:
  "key_sorted m \<Longrightarrow>
   key_sorted (foldl (\<lambda>m e. map_insert e m) m decl) \<and>
   map_of (foldl (\<lambda>m e. map_insert e m) m decl) k =
     (case map_of m k of Some v \<Rightarrow> Some v | None \<Rightarrow> map_of decl k)"
proof (induction decl arbitrary: m)
  case Nil
  then show ?case by (simp split: option.split)
next
  case (Cons e decl)
  have "key_sorted (map_insert e m)" using Cons.prems by (rule key_sorted_map_insert)
  from Cons.IH [OF this] show ?case
    using Cons.prems by (cases e) (auto simp: map_of_map_insert split: option.split)
qed

lemma key_sorted_SymbolTable_of: "key_sorted (SymbolTable_of decl)"
  using foldl_map_insert [of "[]" decl] by (simp add: SymbolTable_of_def key_sorted_def)

lemma map_of_SymbolTable_of: "map_of (SymbolTable_of decl) = map_of decl"
proof
  fix k
  have "key_sorted []" by (simp add: key_sorted_def)
  from foldl_map_insert [OF this, of decl k] show "map_of (SymbolTable_of decl) k = map_of decl k"
    by (simp add: SymbolTable_of_def)
qed

lemmas eval_defs = default_options_def bitMask_def SymbolTable_of_def word_sless_alt append_flag_def
  format_eval_defs matched_def flag_matches_def join_flags_def
  ident_like_def residual_term_def matched_bits_def

text \<open>
  C1, as stated, fails in two ways. For the value 0 and a table with an entry for the
  key 0, no flag matches, yet \<^verbatim>\<open>bitMask\<close> returns the name of that entry and not the
  number. And a table may name a flag by a numeral: the result for a matching flag named
  \<open>1\<close> is the same text as the number 1.
\<close>

theorem bitMask_numeric_iff_counterexample:
  "\<not> (bitMask default_options (SymbolTable_of [(0, ''NONE'')]) 0 0 = integer 0 0
        \<longleftrightarrow> matched (SymbolTable_of [(0, ''NONE'')]) 0 = [])
   \<and> \<not> (bitMask default_options (SymbolTable_of [(1, ''1'')]) 1 0 = integer 1 0
        \<longleftrightarrow> matched (SymbolTable_of [(1, ''1'')]) 1 = [])"
  by (simp add: eval_defs)

text \<open>
  C1 (amended): numeric-only mode off, every name of the table starting like an
  identifier (not empty, not starting with a digit or a minus sign). Then
  \<^verbatim>\<open>bitMask\<close> returns \<open>integer value hex_digits\<close> if and only if no nonzero key of the
  table is contained in the value and the call is not the one with value 0 on a table that
  has an entry for the key 0; in that call the result is the name of that entry. Whenever
  a nonzero key matches, the result is the names of the matching entries, in the order of
  the table, followed by the term for the residual bits when there are any, joined by
  \<open>" | "\<close>.
\<close>

theorem bitMask_numeric_iff:
  assumes "\<not> num_only opt" and "list_all (\<lambda>entry. ident_like (snd entry)) symbols"
  shows "(bitMask opt symbols value hex_digits = integer value hex_digits
            \<longleftrightarrow> matched symbols value = [] \<and> \<not> (value = 0 \<and> map_of symbols 0 \<noteq> None))
       \<and> (value = 0 \<and> map_of symbols 0 \<noteq> None
            \<longrightarrow> map_of symbols 0 = Some (bitMask opt symbols value hex_digits))
       \<and> (matched symbols value \<noteq> []
            \<longrightarrow> bitMask opt symbols value hex_digits =
                  join_bar (map snd (matched symbols value) @ residual_term symbols value hex_digits))"
proof -
  from assms(2) have names: "\<forall>entry \<in> set symbols. ident_like (snd entry)"
    by (simp add: list_all_iff)
  have zero: "map_of symbols 0 = Some (bitMask opt symbols value hex_digits)"
    and zero_ne: "bitMask opt symbols value hex_digits \<noteq> integer value hex_digits"
    if "value = 0" "map_of symbols 0 \<noteq> None"
  proof -
    from that obtain n where n: "map_of symbols 0 = Some n" by auto
    with that(1) assms(1) show z: "map_of symbols 0 = Some (bitMask opt symbols value hex_digits)"
      by (simp add: bitMask_zero_symbol)
    from n have "(0, n) \<in> set symbols" by (rule map_of_SomeD)
    with names have "ident_like n" by auto
    moreover obtain c rest where "integer value hex_digits = c # rest" "c \<in> set ''-0123456789''"
      using integer_hd by blast
    moreover from n z have "bitMask opt symbols value hex_digits = n" by simp
    ultimately show "bitMask opt symbols value hex_digits \<noteq> integer value hex_digits"
      by (auto simp: ident_like_def)
  qed
  have "bitMask opt symbols value hex_digits = integer value hex_digits
          \<longleftrightarrow> matched symbols value = [] \<and> \<not> (value = 0 \<and> map_of symbols 0 \<noteq> None)"
    using zero_ne bitMask_matched_not_integer [OF assms(1) _ names]
      bitMask_unmatched [OF assms(1)] by blast
  moreover have "bitMask opt symbols value hex_digits =
      join_bar (map snd (matched symbols value) @ residual_term symbols value hex_digits)"
    if m: "matched symbols value \<noteq> []"
  proof -
    have "hd (matched symbols value) \<in> set symbols"
      using m by (metis (no_types) filter_is_subset hd_in_set matched_def subsetD)
    with names have "ident_like (snd (hd (matched symbols value)))" by blast
    then have "hd (map snd (matched symbols value) @ residual_term symbols value hex_digits) \<noteq> []"
      using m by (simp add: hd_append hd_map ident_like_def)
    then show ?thesis
      using bitMask_matched [OF assms(1) m] by (simp add: join_flags_join_bar)
  qed
  ultimately show ?thesis using zero by blast
qed

theorem bitMask_numeric_iff_witness:
  "\<not> num_only default_options
   \<and> list_all (\<lambda>entry. ident_like (snd entry)) (SymbolTable_of [(0, ''NONE''), (1, ''A''), (4, ''B'')])
   \<and> bitMask default_options (SymbolTable_of [(0, ''NONE''), (1, ''A''), (4, ''B'')]) 9 0 \<noteq> integer 9 0
   \<and> bitMask default_options (SymbolTable_of [(0, ''NONE''), (1, ''A''), (4, ''B'')]) 9 0 = ''A | 0x8''"
  using bitMask_numeric_iff [of default_options "SymbolTable_of [(0, ''NONE''), (1, ''A''), (4, ''B'')]" 9 0]
  by (simp add: eval_defs)

text \<open>
  C2: the example of the spec holds on the code, \<open>{0x01:"A", 0x04:"B"}\<close> at \<open>0x09\<close> gives
  \<open>"A | 0x8"\<close>. The residual term however is printed by the conversion \<^verbatim>\<open>%lld\<close> after
  the prefix \<^verbatim>\<open>0x\<close>: for the table \<open>{0x01:"A"}\<close> and the value \<open>0x11\<close> the residual
  bits \<open>0x10\<close> come out as \<open>"0x16"\<close>, the decimal digits of sixteen, where
  \<^verbatim>\<open>integer\<close> prints \<open>"0x10"\<close>. The same happens in \<^verbatim>\<open>genSubVkToWchar\<close> for a record
  whose \<^verbatim>\<open>Attributes\<close> byte is \<open>0x11\<close>, with \<^verbatim>\<open>vk_attr_symbols\<close> at the values kbd.h
  gives its macros.
\<close>

theorem bitMask_residual_decimal:
  "bitMask default_options (SymbolTable_of [(0x01, ''A''), (0x04, ''B'')]) 0x09 0 = ''A | 0x8''
   \<and> bitMask default_options (SymbolTable_of [(0x01, ''A'')]) 0x11 0 = ''A | 0x16''
   \<and> bitMask default_options
         (SymbolTable_of [(0x01, ''CAPLOK''), (0x02, ''SGCAPS''), (0x04, ''CAPLOKALTGR''),
                          (0x08, ''KANALOK''), (0x80, ''GRPSELTAP'')]) 0x11 2 = ''CAPLOK | 0x16''
   \<and> integer 0x10 1 = ''0x10'' \<and> integer 0x10 2 = ''0x10''"
  by (simp add: eval_defs)

text \<open>
  C3, as stated, fails: a table declared as \<open>{4:"B", 1:"A"}\<close> is a \<^verbatim>\<open>std::map\<close>, which
  iterates by ascending key. At the value 5 the result is \<open>"A | B"\<close>; the names of the
  matching entries in the order of the declaration are \<open>"B | A"\<close>.
\<close>

theorem bitMask_declared_order_counterexample:
  "bitMask default_options (SymbolTable_of [(4, ''B''), (1, ''A'')]) 5 0 = ''A | B''
   \<and> join_flags (map snd (matched [(4, ''B''), (1, ''A'')] 5)) = ''B | A''"
  by (simp add: eval_defs)

text \<open>
  C3 (amended): the table built from a declaration holds its entries by strictly ascending
  signed key, whatever the order of the declaration, and for a key declared twice the
  first declaration stays. \<^verbatim>\<open>bitMask\<close> tests the entries in that order: the names in its
  result are those of the matching entries of the table, in ascending order of their keys.
\<close>

theorem bitMask_key_order:
  "key_sorted (SymbolTable_of decl)
   \<and> map_of (SymbolTable_of decl) = map_of decl
   \<and> (\<not> num_only opt \<and> matched (SymbolTable_of decl) value \<noteq> []
        \<longrightarrow> bitMask opt (SymbolTable_of decl) value hex_digits =
              join_flags (map snd (matched (SymbolTable_of decl) value)
                          @ residual_term (SymbolTable_of decl) value hex_digits))"
  using key_sorted_SymbolTable_of map_of_SymbolTable_of bitMask_matched by blast

theorem bitMask_key_order_witness:
  "\<not> num_only default_options
   \<and> matched (SymbolTable_of [(4, ''B''), (1, ''A'')]) 5 = [(1, ''A''), (4, ''B'')]
   \<and> bitMask default_options (SymbolTable_of [(4, ''B''), (1, ''A'')]) 5 0 = ''A | B''"
  using bitMask_key_order [of "[(4, ''B''), (1, ''A'')]" default_options 5 0]
  by (simp add: default_options_def SymbolTable_of_def word_sless_alt matched_def flag_matches_def
      join_flags_def append_flag_def residual_term_def matched_bits_def)

section \<open>Properties of the reconciliation of extents\<close>

lemma IsZero_iff: "IsZero mem start fin \<longleftrightarrow> (\<forall>a. start \<le> a \<and> a < fin \<longrightarrow> mem a = 0)"
  by (auto simp: IsZero_def list_all_iff)

lemma merge_loop_merge:
  "name p = name c \<and> (end_ds p = address c \<or> IsZero mem (end_ds p) (address c)) \<Longrightarrow>
   merge_loop mem p (c # rest) = merge_loop mem (p\<lparr>size_ds := end_ds c - address p\<rparr>) rest"
  by (subst merge_loop.simps(2)) (simp add: Let_def)

lemma merge_loop_gap:
  "\<not> (name p = name c \<and> (end_ds p = address c \<or> IsZero mem (end_ds p) (address c))) \<Longrightarrow>
   end_ds p < address c \<Longrightarrow>
   merge_loop mem p (c # rest) =
     p # merge_loop mem \<lparr>name = (if IsZero mem (end_ds p) (address c) then ''Padding'' else ''Unreferenced''),
                          address = end_ds p, size_ds = address c - end_ds p\<rparr> (c # rest)"
  by (subst merge_loop.simps(2)) (auto simp: Let_def)

lemma merge_loop_advance:
  "\<not> (name p = name c \<and> (end_ds p = address c \<or> IsZero mem (end_ds p) (address c))) \<Longrightarrow>
   \<not> end_ds p < address c \<Longrightarrow>
   merge_loop mem p (c # rest) = p # merge_loop mem c rest"
  by (subst merge_loop.simps(2)) (auto simp: Let_def)

lemma merge_loop_settled: "settled mem (p # rest) \<Longrightarrow> merge_loop mem p rest = p # rest"
proof (induction rest arbitrary: p)
  case Nil
  show ?case by simp
next
  case (Cons c rest)
  then have "pair_settled mem p c" and tl: "settled mem (c # rest)" by simp_all
  then have "merge_loop mem p (c # rest) = p # merge_loop mem c rest"
    by (intro merge_loop_advance) (simp_all add: pair_settled_def)
  with Cons.IH [OF tl] show ?case by simp
qed

lemma merge_loop_head:
  "\<exists>q tl. merge_loop mem p rest = q # tl \<and> name q = name p \<and> address q = address p"
proof (induction mem p rest rule: merge_loop.induct)
  case (1 mem previous)
  show ?case by simp
next
  case (2 mem previous current rest)
  let ?z = "IsZero mem (end_ds previous) (address current)"
  show ?case
  proof (cases "name previous = name current \<and> (end_ds previous = address current \<or> ?z)")
    case True
    with "2.IH"(1) [OF refl True] show ?thesis by (simp add: merge_loop_merge)
  next
    case False
    then show ?thesis
      by (cases "end_ds previous < address current") (simp_all add: merge_loop_gap merge_loop_advance)
  qed
qed

lemma pair_settled_cong:
  "name b' = name b \<Longrightarrow> address b' = address b \<Longrightarrow> pair_settled mem a b' = pair_settled mem a b"
  by (simp add: pair_settled_def)

lemma settled_Cons_merge_loop:
  assumes "pair_settled mem a p" "settled mem (merge_loop mem p rest)"
  shows "settled mem (a # merge_loop mem p rest)"
proof -
  obtain q tl where q: "merge_loop mem p rest = q # tl" "name q = name p" "address q = address p"
    using merge_loop_head by blast
  with assms pair_settled_cong [of q p mem a] show ?thesis by simp
qed

lemma merge_loop_is_settled:
  "list_all (\<lambda>c. \<not> synthetic_name (name c)) rest \<Longrightarrow>
   \<not> synthetic_name (name p) \<or> rest = [] \<or> end_ds p = address (hd rest) \<Longrightarrow>
   settled mem (merge_loop mem p rest)"
proof (induction mem p rest rule: merge_loop.induct)
  case (1 mem previous)
  show ?case by simp
next
  case (2 mem previous current rest)
  let ?z = "IsZero mem (end_ds previous) (address current)"
  let ?gap = "\<lparr>name = (if ?z then ''Padding'' else ''Unreferenced''),
               address = end_ds previous, size_ds = address current - end_ds previous\<rparr>"
  from "2.prems"(1) have cur: "\<not> synthetic_name (name current)"
    and rest: "list_all (\<lambda>c. \<not> synthetic_name (name c)) rest" by simp_all
  show ?case
  proof (cases "name previous = name current \<and> (end_ds previous = address current \<or> ?z)")
    case True
    with cur have "\<not> synthetic_name (name (previous\<lparr>size_ds := end_ds current - address previous\<rparr>))"
      by simp
    with "2.IH"(1) [OF refl True rest] True show ?thesis by (simp add: merge_loop_merge)
  next
    case nomerge: False
    show ?thesis
    proof (cases "end_ds previous < address current")
      case True
      with "2.prems"(2) have real: "\<not> synthetic_name (name previous)" by auto
      have gap_end: "end_ds ?gap = address current" using True by (simp add: end_ds_def)
      have "settled mem (merge_loop mem ?gap (current # rest))"
        using "2.IH"(2) [OF refl nomerge True "2.prems"(1)] gap_end by simp
      moreover have "synthetic_name (name ?gap)" by (simp add: synthetic_name_def)
      with real have "pair_settled mem previous ?gap"
        by (auto simp: pair_settled_def)
      ultimately have "settled mem (previous # merge_loop mem ?gap (current # rest))"
        by (rule settled_Cons_merge_loop [rotated])
      with nomerge True show ?thesis by (simp add: merge_loop_gap)
    next
      case False
      have "settled mem (merge_loop mem current rest)"
        using "2.IH"(3) [OF refl nomerge False rest] cur by simp
      moreover have "pair_settled mem previous current"
        using nomerge False by (simp add: pair_settled_def)
      ultimately have "settled mem (previous # merge_loop mem current rest)"
        by (rule settled_Cons_merge_loop [rotated])
      with nomerge False show ?thesis by (simp add: merge_loop_advance)
    qed
  qed
qed

lemma sorted_Cons_merge_loop:
  assumes "address a \<le> address p" "sorted (map address (merge_loop mem p rest))"
  shows "sorted (map address (a # merge_loop mem p rest))"
proof -
  obtain q tl where q: "merge_loop mem p rest = q # tl" "address q = address p"
    using merge_loop_head by blast
  with assms show ?thesis by auto
qed

lemma merge_loop_sorted:
  "sorted (map address (p # rest)) \<Longrightarrow> sorted (map address (merge_loop mem p rest))"
proof (induction mem p rest rule: merge_loop.induct)
  case (1 mem previous)
  show ?case by simp
next
  case (2 mem previous current rest)
  let ?z = "IsZero mem (end_ds previous) (address current)"
  let ?gap = "\<lparr>name = (if ?z then ''Padding'' else ''Unreferenced''),
               address = end_ds previous, size_ds = address current - end_ds previous\<rparr>"
  from "2.prems" have le: "address previous \<le> address current"
    and rest: "sorted (map address (current # rest))"
    and all: "\<forall>d \<in> set rest. address previous \<le> address d" by auto
  show ?case
  proof (cases "name previous = name current \<and> (end_ds previous = address current \<or> ?z)")
    case True
    have "sorted (map address (previous\<lparr>size_ds := end_ds current - address previous\<rparr> # rest))"
      using rest all by simp
    with "2.IH"(1) [OF refl True] True show ?thesis by (simp add: merge_loop_merge)
  next
    case nomerge: False
    show ?thesis
    proof (cases "end_ds previous < address current")
      case True
      have "sorted (map address (?gap # current # rest))" using rest True by auto
      then have "sorted (map address (merge_loop mem ?gap (current # rest)))"
        by (rule "2.IH"(2) [OF refl nomerge True])
      moreover have "address previous \<le> address ?gap" by (simp add: end_ds_def)
      ultimately have "sorted (map address (previous # merge_loop mem ?gap (current # rest)))"
        by (rule sorted_Cons_merge_loop [rotated])
      with nomerge True show ?thesis by (simp add: merge_loop_gap)
    next
      case False
      have "sorted (map address (merge_loop mem current rest))"
        using rest by (rule "2.IH"(3) [OF refl nomerge False])
      with le have "sorted (map address (previous # merge_loop mem current rest))"
        by (rule sorted_Cons_merge_loop)
      with nomerge False show ?thesis by (simp add: merge_loop_advance)
    qed
  qed
qed

lemma sortDataStructures_sorted: "sorted (map address (sortDataStructures mem alldata))"
proof (cases "sort_key address alldata")
  case Nil
  then show ?thesis by (simp add: sortDataStructures_def)
next
  case (Cons first rest)
  have "sorted (map address (sort_key address alldata))" by simp
  with Cons have "sorted (map address (first # rest))" by simp
  then have "sorted (map address (merge_loop mem first rest))" by (rule merge_loop_sorted)
  with Cons show ?thesis by (simp add: sortDataStructures_def)
qed

lemma sortDataStructures_fixed_point:
  assumes "list_all (\<lambda>d. \<not> synthetic_name (name d)) alldata"
  shows "sortDataStructures mem (sortDataStructures mem alldata) = sortDataStructures mem alldata"
proof (cases "sort_key address alldata")
  case Nil
  then show ?thesis by (simp add: sortDataStructures_def)
next
  case (Cons first rest)
  let ?out = "merge_loop mem first rest"
  have out: "sortDataStructures mem alldata = ?out" using Cons by (simp add: sortDataStructures_def)
  have "set (first # rest) = set alldata" using Cons by (metis set_sort)
  with assms have real: "\<not> synthetic_name (name first)" "list_all (\<lambda>c. \<not> synthetic_name (name c)) rest"
    by (auto simp: list_all_iff)
  then have settled: "settled mem ?out" by (intro merge_loop_is_settled) simp_all
  have "sorted (map address ?out)" using sortDataStructures_sorted [of mem alldata] out by simp
  then have id: "sort_key address ?out = ?out" by (rule sort_key_id_if_sorted)
  obtain q tl where q: "?out = q # tl" using merge_loop_head by blast
  with settled have "merge_loop mem q tl = q # tl" by (simp add: merge_loop_settled)
  with id q have "sortDataStructures mem ?out = ?out" by (simp add: sortDataStructures_def)
  then show ?thesis by (simp only: out)
qed

lemma recorded_name_not_synthetic: "recorded_name n \<Longrightarrow> \<not> synthetic_name n"
proof
  assume r: "recorded_name n" and s: "synthetic_name n"
  from s have "n = ''Padding'' \<or> n = ''Unreferenced''" by (simp add: synthetic_name_def)
  then show False
    using r by (auto simp: recorded_name_def recorded_names_def)
qed

lemma sortDataStructures_of_sorted:
  "sorted (map address (p # rest)) \<Longrightarrow> sortDataStructures mem (p # rest) = merge_loop mem p rest"
  by (simp only: sortDataStructures_def sort_key_id_if_sorted list.case)

lemma sortDataStructures_unfold:
  "sort_key address alldata = p # rest \<Longrightarrow> sortDataStructures mem alldata = merge_loop mem p rest"
  by (simp add: sortDataStructures_def)

lemma sorted_sort_key_Cons2:
  assumes "sort_key address alldata = prev # cur # rest"
  shows "address prev \<le> address cur" and "sorted (map address (cur # rest))"
    and "\<forall>d \<in> set rest. address cur \<le> address d"
proof -
  have "sorted (map address (sort_key address alldata))" by simp
  with assms have s: "sorted (map address (prev # cur # rest))" by simp
  then show "address prev \<le> address cur" by simp
  from s show "sorted (map address (cur # rest))" by simp
  from s show "\<forall>d \<in> set rest. address cur \<le> address d" by simp
qed

lemma filter_real_merge_loop:
  "list_all real_extent rest \<Longrightarrow>
   subseq (map name_address (filter real_extent (merge_loop mem p rest)))
          (map name_address (filter real_extent (p # rest)))"
proof (induction mem p rest rule: merge_loop.induct)
  case (1 mem previous)
  show ?case by simp
next
  case (2 mem previous current rest)
  let ?z = "IsZero mem (end_ds previous) (address current)"
  let ?gap = "\<lparr>name = (if ?z then ''Padding'' else ''Unreferenced''),
               address = end_ds previous, size_ds = address current - end_ds previous\<rparr>"
  let ?merged = "previous\<lparr>size_ds := end_ds current - address previous\<rparr>"
  from "2.prems" have cur: "real_extent current" and rest: "list_all real_extent rest" by simp_all
  show ?case
  proof (cases "name previous = name current \<and> (end_ds previous = address current \<or> ?z)")
    case True
    have "subseq (map name_address (filter real_extent (merge_loop mem ?merged rest)))
                 (map name_address (filter real_extent (?merged # rest)))"
      by (rule "2.IH"(1) [OF refl True rest])
    moreover have "map name_address (filter real_extent (?merged # rest)) =
                   map name_address (filter real_extent (previous # rest))"
      by (simp add: real_extent_def name_address_def)
    moreover have "subseq (map name_address (filter real_extent (previous # rest)))
                          (map name_address (filter real_extent (previous # current # rest)))"
      using cur by (auto intro!: list_emb_Cons)
    ultimately have "subseq (map name_address (filter real_extent (merge_loop mem ?merged rest)))
                 (map name_address (filter real_extent (previous # current # rest)))"
      by (simp only: subseq_order.trans)
    moreover from True have "merge_loop mem previous (current # rest) = merge_loop mem ?merged rest"
      by (rule merge_loop_merge)
    ultimately show ?thesis by (simp only:)
  next
    case nomerge: False
    show ?thesis
    proof (cases "end_ds previous < address current")
      case True
      have "subseq (map name_address (filter real_extent (merge_loop mem ?gap (current # rest))))
                   (map name_address (filter real_extent (?gap # current # rest)))"
        by (rule "2.IH"(2) [OF refl nomerge True "2.prems"])
      moreover have "\<not> real_extent ?gap" by (simp add: real_extent_def synthetic_name_def)
      ultimately have "subseq (map name_address (filter real_extent (merge_loop mem ?gap (current # rest))))
                   (map name_address (filter real_extent (current # rest)))"
        by simp
      then show ?thesis
        using nomerge True by (simp add: merge_loop_gap)
    next
      case False
      have "subseq (map name_address (filter real_extent (merge_loop mem current rest)))
                   (map name_address (filter real_extent (current # rest)))"
        by (rule "2.IH"(3) [OF refl nomerge False rest])
      then show ?thesis
        using nomerge False by (simp add: merge_loop_advance)
    qed
  qed
qed

lemma sortDataStructures_keeps_order:
  assumes "list_all (\<lambda>d. \<not> synthetic_name (name d)) alldata"
  shows "subseq (map name (filter (\<lambda>d. address d = a \<and> \<not> synthetic_name (name d))
                            (sortDataStructures mem alldata)))
                (map name (filter (\<lambda>d. address d = a) alldata))"
proof (cases "sort_key address alldata")
  case Nil
  then show ?thesis by (simp add: sortDataStructures_def)
next
  case (Cons first rest)
  let ?out = "sortDataStructures mem alldata"
  have out: "?out = merge_loop mem first rest" using Cons by (rule sortDataStructures_unfold)
  have "set (first # rest) = set alldata" using Cons by (metis set_sort)
  with assms have real: "list_all real_extent (first # rest)"
    by (auto simp: list_all_iff real_extent_def)
  then have "filter real_extent (first # rest) = first # rest"
    by (simp only: filter_id_conv list_all_iff) 
  with filter_real_merge_loop [of rest mem first] real
  have "subseq (map name_address (filter real_extent ?out)) (map name_address (sort_key address alldata))"
    by (simp add: out Cons)
  then have "subseq (filter (\<lambda>k. snd k = a) (map name_address (filter real_extent ?out)))
                    (filter (\<lambda>k. snd k = a) (map name_address (sort_key address alldata)))"
    by (rule subseq_filter)
  then have "subseq (map fst (filter (\<lambda>k. snd k = a) (map name_address (filter real_extent ?out))))
                    (map fst (filter (\<lambda>k. snd k = a) (map name_address (sort_key address alldata))))"
    by (rule subseq_map)
  moreover have "map fst (filter (\<lambda>k. snd k = a) (map name_address xs)) =
                 map name (filter (\<lambda>d. address d = a) xs)" for xs
    by (induction xs) (simp_all add: name_address_def)
  moreover have "filter (\<lambda>d. address d = a) (filter real_extent ?out) =
                 filter (\<lambda>d. address d = a \<and> \<not> synthetic_name (name d)) ?out"
    by (simp add: real_extent_def conj_commute)
  ultimately show ?thesis
    by (simp add: sort_key_stable)
qed

lemmas extent_eval_defs = sortDataStructures_def merge_loop.simps(2) IsZero_def end_ds_def
  zero_image_def synthetic_name_def Let_def upt_conv_Cons

text \<open>
  C4: \<^verbatim>\<open>sortDataStructures\<close> on any list, told from the list sorted by start address
  (stable), whose first two extents are the adjacent pair \<open>prev\<close>, \<open>cur\<close> the scan meets
  first. Two extents with the same name that touch or have only zero bytes between them
  are merged: the result is that of the reconciliation of the list in which one extent,
  from the start of \<open>prev\<close> to the end of \<open>cur\<close>, stands for both, so the scan goes on
  from the extended extent. A remaining gap gives \<open>prev\<close>, then the reconciliation of the
  list that starts with an extent for exactly the gap, named \<open>Padding\<close> if every byte of
  the gap is zero and \<open>Unreferenced\<close> if not; that extent stays as it is before the
  reconciliation of the rest unless \<open>cur\<close> has one of these two names itself. Touching
  or overlapping extents with different names are both kept and the scan goes on from
  \<open>cur\<close>. A list of no or one extent is returned as it is.
\<close>

theorem sortDataStructures_classification:
  "(sort_key address alldata = [] \<longrightarrow> sortDataStructures mem alldata = [])
   \<and> (sort_key address alldata = [only] \<longrightarrow> sortDataStructures mem alldata = [only])
   \<and> (sort_key address alldata = prev # cur # rest \<longrightarrow>
        address prev \<le> address cur
      \<and> (name prev = name cur \<and> end_ds prev \<le> address cur
            \<and> IsZero mem (end_ds prev) (address cur)
           \<longrightarrow> sortDataStructures mem alldata =
                 sortDataStructures mem
                   (\<lparr>name = name prev, address = address prev,
                     size_ds = end_ds cur - address prev\<rparr> # rest)
               \<and> address prev + (end_ds cur - address prev) = end_ds cur)
      \<and> (end_ds prev < address cur
            \<and> \<not> (name prev = name cur \<and> IsZero mem (end_ds prev) (address cur))
           \<longrightarrow> sortDataStructures mem alldata =
                 prev # sortDataStructures mem
                          (\<lparr>name = (if IsZero mem (end_ds prev) (address cur)
                                   then ''Padding'' else ''Unreferenced''),
                            address = end_ds prev,
                            size_ds = address cur - end_ds prev\<rparr> # cur # rest)
               \<and> end_ds prev + (address cur - end_ds prev) = address cur
               \<and> (\<not> synthetic_name (name cur)
                    \<longrightarrow> sortDataStructures mem alldata =
                          prev # \<lparr>name = (if IsZero mem (end_ds prev) (address cur)
                                          then ''Padding'' else ''Unreferenced''),
                                   address = end_ds prev,
                                   size_ds = address cur - end_ds prev\<rparr>
                               # sortDataStructures mem (cur # rest)))
      \<and> (address cur \<le> end_ds prev \<and> name prev \<noteq> name cur
           \<longrightarrow> sortDataStructures mem alldata = prev # sortDataStructures mem (cur # rest)))
   \<and> (IsZero mem start fin \<longleftrightarrow> (\<forall>a. start \<le> a \<and> a < fin \<longrightarrow> mem a = 0))"
proof (intro conjI impI)
  assume "sort_key address alldata = []"
  then show "sortDataStructures mem alldata = []" by (simp add: sortDataStructures_def)
next
  assume "sort_key address alldata = [only]"
  then show "sortDataStructures mem alldata = [only]" by (simp add: sortDataStructures_def)
next
  assume s: "sort_key address alldata = prev # cur # rest"
  then show "address prev \<le> address cur" by (rule sorted_sort_key_Cons2)
next
  let ?merged = "\<lparr>name = name prev, address = address prev, size_ds = end_ds cur - address prev\<rparr>"
  assume s: "sort_key address alldata = prev # cur # rest"
    and m: "name prev = name cur \<and> end_ds prev \<le> address cur
            \<and> IsZero mem (end_ds prev) (address cur)"
  have all: "\<forall>d \<in> set rest. address cur \<le> address d" and le: "address prev \<le> address cur"
    and tl: "sorted (map address (cur # rest))"
    using sorted_sort_key_Cons2 [OF s] by simp_all
  then have "sorted (map address (?merged # rest))" by auto
  then have ms: "sortDataStructures mem (?merged # rest) = merge_loop mem ?merged rest"
    by (rule sortDataStructures_of_sorted)
  have meq: "prev\<lparr>size_ds := end_ds cur - address prev\<rparr> = ?merged" by simp
  have "sortDataStructures mem alldata = merge_loop mem prev (cur # rest)"
    using s by (rule sortDataStructures_unfold)
  also have "\<dots> = merge_loop mem (prev\<lparr>size_ds := end_ds cur - address prev\<rparr>) rest"
    using m by (intro merge_loop_merge) simp
  also have "\<dots> = merge_loop mem ?merged rest" by (simp only: meq)
  also have "\<dots> = sortDataStructures mem (?merged # rest)" by (simp only: ms)
  finally show "sortDataStructures mem alldata = sortDataStructures mem (?merged # rest)" .
  from le show "address prev + (end_ds cur - address prev) = end_ds cur"
    by (simp add: end_ds_def)
next
  let ?gap = "\<lparr>name = (if IsZero mem (end_ds prev) (address cur) then ''Padding'' else ''Unreferenced''),
               address = end_ds prev, size_ds = address cur - end_ds prev\<rparr>"
  assume s: "sort_key address alldata = prev # cur # rest"
    and g: "end_ds prev < address cur
            \<and> \<not> (name prev = name cur \<and> IsZero mem (end_ds prev) (address cur))"
  have tl: "sorted (map address (cur # rest))" using sorted_sort_key_Cons2 [OF s] by simp
  from g have nomerge: "\<not> (name prev = name cur \<and>
      (end_ds prev = address cur \<or> IsZero mem (end_ds prev) (address cur)))" by auto
  from g have gap: "end_ds prev < address cur" by simp
  have step: "merge_loop mem prev (cur # rest) = prev # merge_loop mem ?gap (cur # rest)"
    using nomerge gap by (rule merge_loop_gap)
  have "sorted (map address (?gap # cur # rest))" using tl gap by auto
  then have gs: "sortDataStructures mem (?gap # cur # rest) = merge_loop mem ?gap (cur # rest)"
    by (rule sortDataStructures_of_sorted)
  with step show a: "sortDataStructures mem alldata = prev # sortDataStructures mem (?gap # cur # rest)"
    using sortDataStructures_unfold [OF s, of mem] by simp
  from gap show "end_ds prev + (address cur - end_ds prev) = address cur" by simp
  assume real: "\<not> synthetic_name (name cur)"
  have "synthetic_name (name ?gap)" by (simp add: synthetic_name_def)
  with real have ne: "name ?gap \<noteq> name cur" by auto
  have "end_ds ?gap = address cur" using gap by (simp add: end_ds_def)
  then have "merge_loop mem ?gap (cur # rest) = ?gap # merge_loop mem cur rest"
    using ne by (intro merge_loop_advance) simp_all
  moreover have "sortDataStructures mem (cur # rest) = merge_loop mem cur rest"
    using tl by (rule sortDataStructures_of_sorted)
  ultimately show "sortDataStructures mem alldata = prev # ?gap # sortDataStructures mem (cur # rest)"
    using a gs by simp
next
  assume s: "sort_key address alldata = prev # cur # rest"
    and t: "address cur \<le> end_ds prev \<and> name prev \<noteq> name cur"
  have tl: "sorted (map address (cur # rest))" using sorted_sort_key_Cons2 [OF s] by simp
  have "merge_loop mem prev (cur # rest) = prev # merge_loop mem cur rest"
    using t by (intro merge_loop_advance) simp_all
  moreover have "sortDataStructures mem (cur # rest) = merge_loop mem cur rest"
    using tl by (rule sortDataStructures_of_sorted)
  ultimately show "sortDataStructures mem alldata = prev # sortDataStructures mem (cur # rest)"
    using sortDataStructures_unfold [OF s, of mem] by simp
next
  show "IsZero mem start fin \<longleftrightarrow> (\<forall>a. start \<le> a \<and> a < fin \<longrightarrow> mem a = 0)"
    by (rule IsZero_iff)
qed

theorem sortDataStructures_classification_witness:
  "sort_key address
     [\<lparr>name = ''C'', address = 12, size_ds = 2\<rparr>, \<lparr>name = ''B'', address = 6, size_ds = 2\<rparr>,
      \<lparr>name = ''A'', address = 0, size_ds = 2\<rparr>, \<lparr>name = ''B'', address = 2, size_ds = 2\<rparr>]
     = [\<lparr>name = ''A'', address = 0, size_ds = 2\<rparr>, \<lparr>name = ''B'', address = 2, size_ds = 2\<rparr>,
        \<lparr>name = ''B'', address = 6, size_ds = 2\<rparr>, \<lparr>name = ''C'', address = 12, size_ds = 2\<rparr>]
   \<and> sortDataStructures zero_image
     [\<lparr>name = ''C'', address = 12, size_ds = 2\<rparr>, \<lparr>name = ''B'', address = 6, size_ds = 2\<rparr>,
      \<lparr>name = ''A'', address = 0, size_ds = 2\<rparr>, \<lparr>name = ''B'', address = 2, size_ds = 2\<rparr>]
     = [\<lparr>name = ''A'', address = 0, size_ds = 2\<rparr>, \<lparr>name = ''B'', address = 2, size_ds = 6\<rparr>,
        \<lparr>name = ''Padding'', address = 8, size_ds = 4\<rparr>, \<lparr>name = ''C'', address = 12, size_ds = 2\<rparr>]
   \<and> sortDataStructures (zero_image(5 := 1, 9 := 1))
     [\<lparr>name = ''C'', address = 12, size_ds = 2\<rparr>, \<lparr>name = ''B'', address = 6, size_ds = 2\<rparr>,
      \<lparr>name = ''A'', address = 0, size_ds = 2\<rparr>, \<lparr>name = ''B'', address = 2, size_ds = 2\<rparr>]
     = [\<lparr>name = ''A'', address = 0, size_ds = 2\<rparr>, \<lparr>name = ''B'', address = 2, size_ds = 2\<rparr>,
        \<lparr>name = ''Unreferenced'', address = 4, size_ds = 2\<rparr>,
        \<lparr>name = ''B'', address = 6, size_ds = 2\<rparr>,
        \<lparr>name = ''Unreferenced'', address = 8, size_ds = 4\<rparr>,
        \<lparr>name = ''C'', address = 12, size_ds = 2\<rparr>]
   \<and> sortDataStructures zero_image
     [\<lparr>name = ''A'', address = 4, size_ds = 2\<rparr>, \<lparr>name = ''A'', address = 0, size_ds = 2\<rparr>]
     = [\<lparr>name = ''A'', address = 0, size_ds = 6\<rparr>]"
  using sortDataStructures_classification [of
      "[\<lparr>name = ''C'', address = 12, size_ds = 2\<rparr>, \<lparr>name = ''B'', address = 6, size_ds = 2\<rparr>,
        \<lparr>name = ''A'', address = 0, size_ds = 2\<rparr>, \<lparr>name = ''B'', address = 2, size_ds = 2\<rparr>]"
      zero_image "\<lparr>name = ''A'', address = 0, size_ds = 2\<rparr>"
      "\<lparr>name = ''A'', address = 0, size_ds = 2\<rparr>" "\<lparr>name = ''B'', address = 2, size_ds = 2\<rparr>"
      "[\<lparr>name = ''B'', address = 6, size_ds = 2\<rparr>, \<lparr>name = ''C'', address = 12, size_ds = 2\<rparr>]" 0 0]
    sortDataStructures_classification [of
      "[\<lparr>name = ''B'', address = 2, size_ds = 2\<rparr>,
        \<lparr>name = ''B'', address = 6, size_ds = 2\<rparr>, \<lparr>name = ''C'', address = 12, size_ds = 2\<rparr>]"
      zero_image "\<lparr>name = ''A'', address = 0, size_ds = 2\<rparr>"
      "\<lparr>name = ''B'', address = 2, size_ds = 2\<rparr>" "\<lparr>name = ''B'', address = 6, size_ds = 2\<rparr>"
      "[\<lparr>name = ''C'', address = 12, size_ds = 2\<rparr>]" 0 0]
    sortDataStructures_classification [of
      "[\<lparr>name = ''B'', address = 2, size_ds = 6\<rparr>, \<lparr>name = ''C'', address = 12, size_ds = 2\<rparr>]"
      zero_image "\<lparr>name = ''A'', address = 0, size_ds = 2\<rparr>"
      "\<lparr>name = ''B'', address = 2, size_ds = 6\<rparr>" "\<lparr>name = ''C'', address = 12, size_ds = 2\<rparr>"
      "[]" 0 0]
    sortDataStructures_classification [of
      "[\<lparr>name = ''A'', address = 4, size_ds = 2\<rparr>, \<lparr>name = ''A'', address = 0, size_ds = 2\<rparr>]"
      zero_image "\<lparr>name = ''A'', address = 0, size_ds = 2\<rparr>"
      "\<lparr>name = ''A'', address = 0, size_ds = 2\<rparr>" "\<lparr>name = ''A'', address = 4, size_ds = 2\<rparr>"
      "[]" 0 0]
  by (simp add: extent_eval_defs)

text \<open>
  C5: the reconciliation is idempotent and deterministic. On every list that has no extent
  named \<open>Padding\<close> or \<open>Unreferenced\<close>, which is every list the generator builds (none
  of the names it records is one of the two, lemma \<open>recorded_name_not_synthetic\<close>), a
  second run of \<^verbatim>\<open>sortDataStructures\<close> on its own result changes nothing. The result is
  a function of the list and the memory image; it is ordered by start address, and the
  extents of the input with the same start address appear in the result in the order they
  have in the input.
\<close>

theorem sortDataStructures_idempotent:
  assumes "list_all (\<lambda>d. \<not> synthetic_name (name d)) alldata"
  shows "sortDataStructures mem (sortDataStructures mem alldata) = sortDataStructures mem alldata
       \<and> sorted (map address (sortDataStructures mem alldata))
       \<and> subseq (map name (filter (\<lambda>d. address d = a \<and> \<not> synthetic_name (name d))
                                 (sortDataStructures mem alldata)))
                (map name (filter (\<lambda>d. address d = a) alldata))"
  using sortDataStructures_fixed_point [OF assms] sortDataStructures_sorted
    sortDataStructures_keeps_order [OF assms]
  by simp

theorem sortDataStructures_idempotent_witness:
  "list_all (\<lambda>d. recorded_name (name d))
     [\<lparr>name = ''kbd_tables'', address = 8, size_ds = 4\<rparr>,
      \<lparr>name = ''key_names'', address = 0, size_ds = 2\<rparr>,
      \<lparr>name = ''Strings in key_names'', address = 6, size_ds = 1\<rparr>,
      \<lparr>name = ''dead_keys'', address = 0, size_ds = 2\<rparr>,
      \<lparr>name = ''Strings in key_names'', address = 4, size_ds = 1\<rparr>]
   \<and> list_all (\<lambda>d. \<not> synthetic_name (name d))
     [\<lparr>name = ''kbd_tables'', address = 8, size_ds = 4\<rparr>,
      \<lparr>name = ''key_names'', address = 0, size_ds = 2\<rparr>,
      \<lparr>name = ''Strings in key_names'', address = 6, size_ds = 1\<rparr>,
      \<lparr>name = ''dead_keys'', address = 0, size_ds = 2\<rparr>,
      \<lparr>name = ''Strings in key_names'', address = 4, size_ds = 1\<rparr>]
   \<and> sortDataStructures zero_image
     [\<lparr>name = ''kbd_tables'', address = 8, size_ds = 4\<rparr>,
      \<lparr>name = ''key_names'', address = 0, size_ds = 2\<rparr>,
      \<lparr>name = ''Strings in key_names'', address = 6, size_ds = 1\<rparr>,
      \<lparr>name = ''dead_keys'', address = 0, size_ds = 2\<rparr>,
      \<lparr>name = ''Strings in key_names'', address = 4, size_ds = 1\<rparr>]
     = [\<lparr>name = ''key_names'', address = 0, size_ds = 2\<rparr>,
        \<lparr>name = ''dead_keys'', address = 0, size_ds = 2\<rparr>,
        \<lparr>name = ''Padding'', address = 2, size_ds = 2\<rparr>,
        \<lparr>name = ''Strings in key_names'', address = 4, size_ds = 3\<rparr>,
        \<lparr>name = ''Padding'', address = 7, size_ds = 1\<rparr>,
        \<lparr>name = ''kbd_tables'', address = 8, size_ds = 4\<rparr>]
   \<and> sortDataStructures zero_image
       [\<lparr>name = ''key_names'', address = 0, size_ds = 2\<rparr>,
        \<lparr>name = ''dead_keys'', address = 0, size_ds = 2\<rparr>,
        \<lparr>name = ''Padding'', address = 2, size_ds = 2\<rparr>,
        \<lparr>name = ''Strings in key_names'', address = 4, size_ds = 3\<rparr>,
        \<lparr>name = ''Padding'', address = 7, size_ds = 1\<rparr>,
        \<lparr>name = ''kbd_tables'', address = 8, size_ds = 4\<rparr>]
     = [\<lparr>name = ''key_names'', address = 0, size_ds = 2\<rparr>,
        \<lparr>name = ''dead_keys'', address = 0, size_ds = 2\<rparr>,
        \<lparr>name = ''Padding'', address = 2, size_ds = 2\<rparr>,
        \<lparr>name = ''Strings in key_names'', address = 4, size_ds = 3\<rparr>,
        \<lparr>name = ''Padding'', address = 7, size_ds = 1\<rparr>,
        \<lparr>name = ''kbd_tables'', address = 8, size_ds = 4\<rparr>]"
  using sortDataStructures_idempotent [of
     "[\<lparr>name = ''kbd_tables'', address = 8, size_ds = 4\<rparr>,
      \<lparr>name = ''key_names'', address = 0, size_ds = 2\<rparr>,
      \<lparr>name = ''Strings in key_names'', address = 6, size_ds = 1\<rparr>,
      \<lparr>name = ''dead_keys'', address = 0, size_ds = 2\<rparr>,
      \<lparr>name = ''Strings in key_names'', address = 4, size_ds = 1\<rparr>]" zero_image 0]
  by (simp add: extent_eval_defs recorded_name_def recorded_names_def)

section \<open>Properties of the walks\<close>

lemma read8_Inr_iff: "read8 img a = Inr b \<longleftrightarrow> a < length img \<and> b = img ! a"
  by (auto simp: read8_def)

lemma read8_in: "a < length img \<Longrightarrow> read8 img a = Inr (img ! a)"
  by (simp add: read8_def)

lemma read8_out: "\<not> a < length img \<Longrightarrow> read8 img a = Inl AccessViolation"
  by (simp add: read8_def)

lemma read16_Inr_iff:
  "(\<exists>w. read16 img a = Inr w) \<longleftrightarrow> a + 1 < length img"
  by (auto simp: read16_def read8_def split: sum.splits)

lemma upt_all_Suc:
  "list_all P [0..<Suc n] \<longleftrightarrow> P 0 \<and> list_all (\<lambda>i. P (Suc i)) [0..<n]"
proof -
  have "list_all P [0..<Suc n] \<longleftrightarrow> (\<forall>i < Suc n. P i)"
    by (auto simp: list_all_iff simp del: upt_Suc)
  also have "\<dots> \<longleftrightarrow> P 0 \<and> (\<forall>i < n. P (Suc i))"
    by (auto simp: less_Suc_eq_0_disj)
  also have "\<dots> \<longleftrightarrow> P 0 \<and> list_all (\<lambda>i. P (Suc i)) [0..<n]"
    by (auto simp: list_all_iff)
  finally show ?thesis .
qed

lemma vk_to_bit_sentinel_Suc:
  "vk_to_bit_sentinel img vtb (Suc n) \<longleftrightarrow>
     vtb < length img \<and> img ! vtb \<noteq> 0 \<and> vk_to_bit_sentinel img (vtb + 2) n"
  unfolding vk_to_bit_sentinel_def upt_all_Suc by (auto simp: add.assoc)

lemma genVkToBits_loop_returns:
  "vk_to_bit_sentinel img vtb n \<Longrightarrow>
   genVkToBits_loop opt cat img vtb grid =
     Some (Inr (vk_to_bit_lines opt cat img vtb n grid, vtb + 2 * n))"
proof (induction n arbitrary: vtb grid)
  case 0
  then show ?case
    by (subst genVkToBits_loop.simps) (simp add: vk_to_bit_sentinel_def read8_in)
next
  case (Suc n)
  from Suc.prems have key: "vtb < length img" "img ! vtb \<noteq> 0"
    and tl: "vk_to_bit_sentinel img (vtb + 2) n"
    by (simp_all add: vk_to_bit_sentinel_Suc)
  from tl have "vtb + 1 < length img" by (simp add: vk_to_bit_sentinel_def)
  with key Suc.IH [OF tl, of "grid @ [vk_to_bit_line opt cat (img ! vtb) (img ! (vtb + 1))]"]
  show ?case
    by (subst genVkToBits_loop.simps) (simp add: read8_in add.assoc)
qed

lemma genVkToBits_loop_total: "\<exists>r. genVkToBits_loop opt cat img vtb grid = Some r"
proof (induction "length img - vtb" arbitrary: vtb grid rule: less_induct)
  case less
  show ?case
  proof (cases "vtb < length img \<and> img ! vtb \<noteq> 0 \<and> vtb + 1 < length img")
    case True
    then have "length img - (vtb + 2) < length img - vtb" by linarith
    from less [OF this] obtain r where
      "genVkToBits_loop opt cat img (vtb + 2)
         (grid @ [vk_to_bit_line opt cat (img ! vtb) (img ! (vtb + 1))]) = Some r"
      by blast
    with True show ?thesis
      by (subst genVkToBits_loop.simps) (simp add: read8_in)
  next
    case False
    then show ?thesis
      by (subst genVkToBits_loop.simps) (auto simp: read8_def)
  qed
qed

lemma genVkToBits_loop_Inr:
  assumes "genVkToBits_loop opt cat img vtb grid = Some r"
  shows "\<forall>g e. r = Inr (g, e) \<longrightarrow> (\<exists>n. vk_to_bit_sentinel img vtb n \<and> e = vtb + 2 * n)"
proof (rule genVkToBits_loop.raw_induct
    [where P = "\<lambda>opt cat img vtb grid r.
        \<forall>g e. r = Inr (g, e) \<longrightarrow> (\<exists>n. vk_to_bit_sentinel img vtb n \<and> e = vtb + 2 * n)",
     OF _ assms])
  fix loop opt cat img vtb grid and r :: "fault + Grid \<times> nat"
  assume IH: "\<And>opt cat img vtb grid r. loop opt cat img vtb grid = Some r \<Longrightarrow>
      \<forall>g e. r = Inr (g, e) \<longrightarrow> (\<exists>n. vk_to_bit_sentinel img vtb n \<and> e = vtb + 2 * n)"
    and step: "(case read8 img vtb of
        Inl f \<Rightarrow> Some (Inl f)
      | Inr Vk \<Rightarrow>
          if Vk \<noteq> 0 then
            (case read8 img (vtb + 1) of
               Inl f \<Rightarrow> Some (Inl f)
             | Inr ModBits \<Rightarrow>
                 loop opt cat img (vtb + 2) (grid @ [vk_to_bit_line opt cat Vk ModBits]))
          else Some (Inr (grid, vtb))) = Some r"
  show "\<forall>g e. r = Inr (g, e) \<longrightarrow> (\<exists>n. vk_to_bit_sentinel img vtb n \<and> e = vtb + 2 * n)"
  proof (intro allI impI)
    fix g e assume r: "r = Inr (g, e)"
    from step r have inside: "vtb < length img"
      by (auto simp: read8_def split: if_splits)
    show "\<exists>n. vk_to_bit_sentinel img vtb n \<and> e = vtb + 2 * n"
    proof (cases "img ! vtb = 0")
      case True
      with step r inside have "e = vtb" by (simp add: read8_in)
      moreover from True inside have "vk_to_bit_sentinel img vtb 0"
        by (simp add: vk_to_bit_sentinel_def)
      ultimately show ?thesis by (intro exI [of _ 0]) simp
    next
      case False
      with step r inside obtain m where
        "loop opt cat img (vtb + 2) (grid @ [vk_to_bit_line opt cat (img ! vtb) m]) = Some r"
        by (auto simp: read8_in split: sum.splits)
      from IH [OF this] r obtain n where "vk_to_bit_sentinel img (vtb + 2) n" "e = vtb + 2 + 2 * n"
        by blast
      with False inside have "vk_to_bit_sentinel img vtb (Suc n) \<and> e = vtb + 2 * Suc n"
        by (simp add: vk_to_bit_sentinel_Suc)
      then show ?thesis by blast
    qed
  qed
qed

lemma length_vk_to_bit_lines:
  "length (vk_to_bit_lines opt cat img vtb n grid) = length grid + n"
  by (induction n arbitrary: vtb grid) simp_all

lemma length_addColumn: "grid \<noteq> [] \<Longrightarrow> length (addColumn grid col) = length grid"
  by (simp add: addColumn_def)

lemma wch_columns_Cons:
  "read16 img (vtwc + 2 + 2 * i) = Inr w \<Longrightarrow>
   wch_columns opt cat img vtwc count (i # is) grid comments =
     wch_columns opt cat img vtwc count is
       (addColumn grid ((if i = 0 then CHR ''{'' # fst (wchar opt cat w comments)
                         else fst (wchar opt cat w comments))
                        @ (if i = count - 1 then ''}},'' else '','')))
       (snd (wchar opt cat w comments))"
  by (simp add: Let_def split_beta)

lemma wch_columns_in:
  "list_all (\<lambda>i. vtwc + 2 + 2 * i + 1 < length img) is \<Longrightarrow> grid \<noteq> [] \<Longrightarrow>
   \<exists>g c. wch_columns opt cat img vtwc count is grid comments = Inr (g, c)
          \<and> length g = length grid"
proof (induction "is" arbitrary: grid comments)
  case Nil
  show ?case by simp
next
  case (Cons i "is")
  from Cons.prems obtain w where w: "read16 img (vtwc + 2 + 2 * i) = Inr w"
    using read16_Inr_iff [of img "vtwc + 2 + 2 * i"] by auto
  have ne: "addColumn grid col \<noteq> []" for col by (simp add: addColumn_def)
  from Cons.prems have tl: "list_all (\<lambda>i. vtwc + 2 + 2 * i + 1 < length img) is" by simp
  from Cons.prems(2) have len: "length (addColumn grid col) = length grid" for col
    by (rule length_addColumn)
  show ?case
    unfolding wch_columns_Cons [OF w] using Cons.IH [OF tl ne] unfolding len .
qed

lemma wch_columns_Inr:
  "wch_columns opt cat img vtwc count is grid comments = Inr r \<Longrightarrow>
   list_all (\<lambda>i. vtwc + 2 + 2 * i + 1 < length img) is"
proof (induction "is" arbitrary: grid comments)
  case Nil
  show ?case by simp
next
  case (Cons i "is")
  from Cons.prems obtain w where w: "read16 img (vtwc + 2 + 2 * i) = Inr w"
    by (auto split: sum.splits)
  then have here: "vtwc + 2 + 2 * i + 1 < length img"
    using read16_Inr_iff [of img "vtwc + 2 + 2 * i"] by auto
  from Cons.prems have "list_all (\<lambda>i. vtwc + 2 + 2 * i + 1 < length img) is"
    unfolding wch_columns_Cons [OF w] by (rule Cons.IH)
  with here show ?case by simp
qed

lemma columns_in_record:
  "list_all (\<lambda>i. vtwc + 2 + 2 * i + 1 < length img) [0..<count] \<and> vtwc + 1 < length img
     \<longleftrightarrow> vtwc + 2 + 2 * count \<le> length img"
proof (cases count)
  case 0
  then show ?thesis by auto
next
  case (Suc k)
  have "list_all (\<lambda>i. vtwc + 2 + 2 * i + 1 < length img) [0..<Suc k]
          \<longleftrightarrow> vtwc + 2 + 2 * k + 1 < length img"
    by (auto simp: list_all_iff simp del: upt_Suc)
  with Suc show ?thesis by auto
qed

lemma vk_to_wchars_line_in:
  assumes "vtwc + 2 + 2 * count \<le> length img"
  shows "\<exists>g. vk_to_wchars_line opt cat img vk vtwc count grid = Inr g \<and> length g = Suc (length grid)"
proof -
  from assms have cols: "list_all (\<lambda>i. vtwc + 2 + 2 * i + 1 < length img) [0..<count]"
    and attr: "vtwc + 1 < length img"
    using columns_in_record [of vtwc img count] by simp_all
  let ?g = "grid @ [[''{'' @ symbol opt (vk_symbols cat) (ucast vk) 2 @ '','',
              bitMask opt (vk_attr_symbols cat) (ucast (img ! (vtwc + 1))) 2 @ '','']]"
  have "?g \<noteq> []" by simp
  from wch_columns_in [OF cols this, of opt cat count "[]"] obtain g c where
    gc: "wch_columns opt cat img vtwc count [0..<count] ?g [] = Inr (g, c)" "length g = length ?g"
    by blast
  then have "g \<noteq> []" by auto
  with gc attr show ?thesis
    by (simp add: vk_to_wchars_line_def read8_in length_addColumn)
qed

lemma vk_to_wchars_line_Inr:
  assumes "vk_to_wchars_line opt cat img vk vtwc count grid = Inr g"
  shows "vtwc + 2 + 2 * count \<le> length img"
proof -
  from assms have attr: "vtwc + 1 < length img"
    by (auto simp: vk_to_wchars_line_def read8_def split: if_splits sum.splits)
  from assms obtain r gr where
    "wch_columns opt cat img vtwc count [0..<count] gr [] = Inr r"
    by (auto simp: vk_to_wchars_line_def split: sum.splits)
  then have "list_all (\<lambda>i. vtwc + 2 + 2 * i + 1 < length img) [0..<count]"
    by (rule wch_columns_Inr)
  with attr show ?thesis using columns_in_record [of vtwc img count] by simp
qed

lemma vk_to_wchars_sentinel_Suc:
  "vk_to_wchars_sentinel img vtwc count cbSize (Suc n) \<longleftrightarrow>
     img ! vtwc \<noteq> 0 \<and> vtwc + 2 + 2 * count \<le> length img
     \<and> vk_to_wchars_sentinel img (vtwc + cbSize) count cbSize n"
  unfolding vk_to_wchars_sentinel_def upt_all_Suc by (auto simp: add.assoc)

lemma genSubVkToWchar_loop_returns:
  "vk_to_wchars_sentinel img vtwc count cbSize n \<Longrightarrow>
   \<exists>g. vk_to_wchars_lines opt cat img vtwc count cbSize n grid = Inr g
        \<and> length g = length grid + n
        \<and> genSubVkToWchar_loop opt cat img vtwc count cbSize grid =
            Some (Inr (g, vtwc + cbSize * n))"
proof (induction n arbitrary: vtwc grid)
  case 0
  then show ?case
    by (subst genSubVkToWchar_loop.simps) (simp add: vk_to_wchars_sentinel_def read8_in)
next
  case (Suc n)
  from Suc.prems have key: "img ! vtwc \<noteq> 0" and rec: "vtwc + 2 + 2 * count \<le> length img"
    and tl: "vk_to_wchars_sentinel img (vtwc + cbSize) count cbSize n"
    by (simp_all add: vk_to_wchars_sentinel_Suc)
  from rec have inside: "vtwc < length img" by simp
  from vk_to_wchars_line_in [OF rec, of opt cat "img ! vtwc" grid] obtain g' where
    g': "vk_to_wchars_line opt cat img (img ! vtwc) vtwc count grid = Inr g'"
        "length g' = Suc (length grid)"
    by blast
  from Suc.IH [OF tl, of g'] obtain g where
    g: "vk_to_wchars_lines opt cat img (vtwc + cbSize) count cbSize n g' = Inr g"
       "length g = length g' + n"
       "genSubVkToWchar_loop opt cat img (vtwc + cbSize) count cbSize g' =
          Some (Inr (g, vtwc + cbSize + cbSize * n))"
    by blast
  have "genSubVkToWchar_loop opt cat img vtwc count cbSize grid =
          Some (Inr (g, vtwc + cbSize * Suc n))"
    using key inside g' g(3)
    by (subst genSubVkToWchar_loop.simps) (simp add: read8_in add.assoc)
  with g' g show ?case by simp
qed

lemma genSubVkToWchar_loop_total:
  "0 < cbSize \<Longrightarrow> \<exists>r. genSubVkToWchar_loop opt cat img vtwc count cbSize grid = Some r"
proof (induction "length img - vtwc" arbitrary: vtwc grid rule: less_induct)
  case less
  show ?case
  proof (cases "vtwc < length img \<and> img ! vtwc \<noteq> 0")
    case True
    show ?thesis
    proof (cases "vk_to_wchars_line opt cat img (img ! vtwc) vtwc count grid")
      case (Inl f)
      with True show ?thesis
        by (subst genSubVkToWchar_loop.simps) (simp add: read8_in)
    next
      case (Inr g')
      from True less.prems have "length img - (vtwc + cbSize) < length img - vtwc" by linarith
      from less.hyps [OF this less.prems] obtain r where
        "genSubVkToWchar_loop opt cat img (vtwc + cbSize) count cbSize g' = Some r"
        by blast
      with True Inr show ?thesis
        by (subst genSubVkToWchar_loop.simps) (simp add: read8_in)
    qed
  next
    case False
    then show ?thesis
      by (subst genSubVkToWchar_loop.simps) (auto simp: read8_def)
  qed
qed

lemma genSubVkToWchar_loop_Inr:
  assumes "genSubVkToWchar_loop opt cat img vtwc count cbSize grid = Some r"
  shows "\<forall>g e. r = Inr (g, e) \<longrightarrow>
           (\<exists>n. vk_to_wchars_sentinel img vtwc count cbSize n \<and> e = vtwc + cbSize * n)"
proof (rule genSubVkToWchar_loop.raw_induct
    [where P = "\<lambda>opt cat img vtwc count cbSize grid r.
        \<forall>g e. r = Inr (g, e) \<longrightarrow>
          (\<exists>n. vk_to_wchars_sentinel img vtwc count cbSize n \<and> e = vtwc + cbSize * n)",
     OF _ assms])
  fix loop opt cat img vtwc count cbSize grid and r :: "fault + Grid \<times> nat"
  assume IH: "\<And>opt cat img vtwc count cbSize grid r.
      loop opt cat img vtwc count cbSize grid = Some r \<Longrightarrow>
      \<forall>g e. r = Inr (g, e) \<longrightarrow>
        (\<exists>n. vk_to_wchars_sentinel img vtwc count cbSize n \<and> e = vtwc + cbSize * n)"
    and step: "(case read8 img vtwc of
        Inl f \<Rightarrow> Some (Inl f)
      | Inr VirtualKey \<Rightarrow>
          if VirtualKey \<noteq> 0 then
            (case vk_to_wchars_line opt cat img VirtualKey vtwc count grid of
               Inl f \<Rightarrow> Some (Inl f)
             | Inr grid' \<Rightarrow> loop opt cat img (vtwc + cbSize) count cbSize grid')
          else Some (Inr (grid, vtwc))) = Some r"
  show "\<forall>g e. r = Inr (g, e) \<longrightarrow>
          (\<exists>n. vk_to_wchars_sentinel img vtwc count cbSize n \<and> e = vtwc + cbSize * n)"
  proof (intro allI impI)
    fix g e assume r: "r = Inr (g, e)"
    from step r have inside: "vtwc < length img"
      by (auto simp: read8_def split: if_splits)
    show "\<exists>n. vk_to_wchars_sentinel img vtwc count cbSize n \<and> e = vtwc + cbSize * n"
    proof (cases "img ! vtwc = 0")
      case True
      with step r inside have "e = vtwc" by (simp add: read8_in)
      moreover from True inside have "vk_to_wchars_sentinel img vtwc count cbSize 0"
        by (simp add: vk_to_wchars_sentinel_def)
      ultimately show ?thesis by (intro exI [of _ 0]) simp
    next
      case False
      with step r inside obtain g' where
        line: "vk_to_wchars_line opt cat img (img ! vtwc) vtwc count grid = Inr g'"
        and "loop opt cat img (vtwc + cbSize) count cbSize g' = Some r"
        by (auto simp: read8_in split: sum.splits)
      from IH [OF this(2)] r obtain n where
        "vk_to_wchars_sentinel img (vtwc + cbSize) count cbSize n" "e = vtwc + cbSize + cbSize * n"
        by blast
      with False vk_to_wchars_line_Inr [OF line]
      have "vk_to_wchars_sentinel img vtwc count cbSize (Suc n) \<and> e = vtwc + cbSize * Suc n"
        by (simp add: vk_to_wchars_sentinel_Suc)
      then show ?thesis by blast
    qed
  qed
qed

lemma genSubVkToWchar_loop_zero_stride:
  assumes "img ! vtwc \<noteq> 0" "vtwc + 2 + 2 * count \<le> length img"
  shows "genSubVkToWchar_loop opt cat img vtwc count 0 grid = None"
proof (cases "genSubVkToWchar_loop opt cat img vtwc count 0 grid")
  case None
  then show ?thesis .
next
  case (Some r)
  have "\<not> (cbSize = 0 \<and> img ! vtwc \<noteq> 0 \<and> vtwc + 2 + 2 * count \<le> length img)"
    if "genSubVkToWchar_loop opt cat img vtwc count cbSize grid = Some r"
    for opt cat img vtwc count cbSize grid and r :: "fault + Grid \<times> nat"
  proof (rule genSubVkToWchar_loop.raw_induct
      [where P = "\<lambda>opt cat img vtwc count cbSize grid r.
          \<not> (cbSize = 0 \<and> img ! vtwc \<noteq> 0 \<and> vtwc + 2 + 2 * count \<le> length img)",
       OF _ that])
    fix loop opt cat img vtwc count cbSize grid and r :: "fault + Grid \<times> nat"
    assume IH: "\<And>opt cat img vtwc count cbSize grid r.
        loop opt cat img vtwc count cbSize grid = Some r \<Longrightarrow>
        \<not> (cbSize = 0 \<and> img ! vtwc \<noteq> 0 \<and> vtwc + 2 + 2 * count \<le> length img)"
      and step: "(case read8 img vtwc of
          Inl f \<Rightarrow> Some (Inl f)
        | Inr VirtualKey \<Rightarrow>
            if VirtualKey \<noteq> 0 then
              (case vk_to_wchars_line opt cat img VirtualKey vtwc count grid of
                 Inl f \<Rightarrow> Some (Inl f)
               | Inr grid' \<Rightarrow> loop opt cat img (vtwc + cbSize) count cbSize grid')
            else Some (Inr (grid, vtwc))) = Some r"
    show "\<not> (cbSize = 0 \<and> img ! vtwc \<noteq> 0 \<and> vtwc + 2 + 2 * count \<le> length img)"
    proof
      assume c: "cbSize = 0 \<and> img ! vtwc \<noteq> 0 \<and> vtwc + 2 + 2 * count \<le> length img"
      then have inside: "vtwc < length img" by simp
      from c vk_to_wchars_line_in [of vtwc count img opt cat "img ! vtwc" grid] obtain g' where
        "vk_to_wchars_line opt cat img (img ! vtwc) vtwc count grid = Inr g'" by blast
      with step c inside have "loop opt cat img vtwc count cbSize g' = Some r"
        by (simp add: read8_in)
      from IH [OF this] c show False by simp
    qed
  qed
  from this [OF Some] assms show ?thesis by simp
qed

lemma nth_ones_sentinel:
  "i < k \<Longrightarrow> (replicate (2 * k) (1 :: 8 word) @ [0, 0]) ! (2 * i) = 1"
  "(replicate (2 * k) (1 :: 8 word) @ [0, 0]) ! (2 * k) = 0"
  by (simp_all add: nth_append)

lemma vk_to_bit_sentinel_ones:
  "vk_to_bit_sentinel (replicate (2 * k) 1 @ [0, 0]) 0 k"
  by (simp add: vk_to_bit_sentinel_def list_all_iff nth_ones_sentinel del: replicate_add)

lemma vk_to_wchars_sentinel_ones:
  "vk_to_wchars_sentinel (replicate (2 * k) 1 @ [0, 0]) 0 0 2 k"
  by (simp add: vk_to_wchars_sentinel_def list_all_iff nth_ones_sentinel del: replicate_add)

lemma genVkToBits_returns:
  assumes "vk_to_bit_sentinel img vtb n"
  shows "genVkToBits opt cat img vtb nm =
           Some (Inr (vk_to_bit_lines opt cat img vtb n [] @ [[''{0,'', ''0}'']],
                      \<lparr>name = nm, address = vtb, size_ds = 2 * n + 2\<rparr>))"
  by (simp add: genVkToBits_def genVkToBits_loop_returns [OF assms])

lemma genVkToBits_fault:
  assumes "\<forall>n. \<not> vk_to_bit_sentinel img vtb n"
  shows "genVkToBits opt cat img vtb nm = Some (Inl AccessViolation)"
proof -
  obtain r where r: "genVkToBits_loop opt cat img vtb [] = Some r"
    using genVkToBits_loop_total by blast
  show ?thesis
  proof (cases r)
    case (Inl f)
    with r show ?thesis by (cases f) (simp add: genVkToBits_def)
  next
    case (Inr p)
    with genVkToBits_loop_Inr [OF r] assms show ?thesis by (cases p) auto
  qed
qed

lemma genSubVkToWchar_returns:
  assumes "vk_to_wchars_sentinel img vtwc count cbSize n"
  shows "\<exists>g. vk_to_wchars_lines opt cat img vtwc count cbSize n
               (header_grid opt underlines count mods) = Inr g
             \<and> length g = length (header_grid opt underlines count mods) + n
             \<and> genSubVkToWchar opt cat underlines img vtwc count cbSize nm mods =
                 Some (Inr (g @ [''{0,'' # replicate count ''0,'' @ [''0}'']],
                            \<lparr>name = nm, address = vtwc, size_ds = cbSize * n + cbSize\<rparr>))"
proof -
  from genSubVkToWchar_loop_returns [OF assms, of opt cat "header_grid opt underlines count mods"]
  obtain g where g:
    "vk_to_wchars_lines opt cat img vtwc count cbSize n (header_grid opt underlines count mods) = Inr g"
    "length g = length (header_grid opt underlines count mods) + n"
    "genSubVkToWchar_loop opt cat img vtwc count cbSize (header_grid opt underlines count mods) =
       Some (Inr (g, vtwc + cbSize * n))"
    by blast
  from g(3) have "genSubVkToWchar opt cat underlines img vtwc count cbSize nm mods =
      Some (Inr (g @ [''{0,'' # replicate count ''0,'' @ [''0}'']],
                 \<lparr>name = nm, address = vtwc, size_ds = cbSize * n + cbSize\<rparr>))"
    by (simp add: genSubVkToWchar_def)
  with g(1,2) show ?thesis by blast
qed

lemma genSubVkToWchar_fault:
  assumes "0 < cbSize" "\<forall>n. \<not> vk_to_wchars_sentinel img vtwc count cbSize n"
  shows "genSubVkToWchar opt cat underlines img vtwc count cbSize nm mods =
           Some (Inl AccessViolation)"
proof -
  obtain r where r: "genSubVkToWchar_loop opt cat img vtwc count cbSize
                       (header_grid opt underlines count mods) = Some r"
    using genSubVkToWchar_loop_total [OF assms(1)] by blast
  show ?thesis
  proof (cases r)
    case (Inl f)
    with r show ?thesis by (cases f) (simp add: genSubVkToWchar_def)
  next
    case (Inr p)
    with genSubVkToWchar_loop_Inr [OF r] assms(2) show ?thesis by (cases p) auto
  qed
qed

lemma genSubVkToWchar_zero_stride:
  assumes "img ! vtwc \<noteq> 0" "vtwc + 2 + 2 * count \<le> length img"
  shows "genSubVkToWchar opt cat underlines img vtwc count 0 nm mods = None"
  by (simp add: genSubVkToWchar_def genSubVkToWchar_loop_zero_stride [OF assms])

lemmas walk_eval_defs = read8_def read16_def vk_to_bit_line_def vk_to_wchars_line_def
  header_grid_def shift_modifiers_def modifiers_headers_def addUnderlines_def addColumn_def
  symbol_def bitMask_def wchar_def empty_catalog_def default_options_def numeric_options_def
  SymbolTable_of_def Let_def upt_conv_Cons char_of_def bit_iff_odd_drop_bit format_eval_defs

text \<open>
  C6, as stated, fails: the walks have no iteration cap and no branch that raises a
  structural failure. The record walk takes its stride from the table
  (\<^verbatim>\<open>vtwc->cbSize\<close>); with the stride 0 and a first record whose key is not zero it reads
  the same record at every turn and does not return. With a positive stride and no record
  with a zero key in the image, both walks go on record after record until a read leaves
  the image, and end with the access violation.
\<close>

theorem walk_no_sentinel_counterexample:
  "genSubVkToWchar default_options empty_catalog addUnderlines [0x41, 0, 0x61, 0, 0x41, 0] 0 2 0
     ''vk_to_wchar2'' shift_modifiers = None
   \<and> genSubVkToWchar default_options empty_catalog addUnderlines [0x41, 0, 0x61, 0, 0x41, 0] 0 2 6
       ''vk_to_wchar2'' shift_modifiers = Some (Inl AccessViolation)
   \<and> genVkToBits default_options empty_catalog [0x10, 1] 0 ''vk_to_bits''
       = Some (Inl AccessViolation)"
proof (intro conjI)
  show "genSubVkToWchar default_options empty_catalog addUnderlines [0x41, 0, 0x61, 0, 0x41, 0] 0 2 0
     ''vk_to_wchar2'' shift_modifiers = None"
    by (rule genSubVkToWchar_zero_stride) simp_all
  have "\<not> vk_to_wchars_sentinel [0x41, 0, 0x61, 0, 0x41, 0] 0 2 6 n" for n
    by (cases n) (simp_all add: vk_to_wchars_sentinel_def)
  then show "genSubVkToWchar default_options empty_catalog addUnderlines
      [0x41, 0, 0x61, 0, 0x41, 0] 0 2 6 ''vk_to_wchar2'' shift_modifiers = Some (Inl AccessViolation)"
    by (intro genSubVkToWchar_fault) simp_all
  have "\<not> vk_to_bit_sentinel [0x10, 1] 0 n" for n
    by (cases n) (simp_all add: vk_to_bit_sentinel_def)
  then show "genVkToBits default_options empty_catalog [0x10, 1] 0 ''vk_to_bits''
       = Some (Inl AccessViolation)"
    by (intro genVkToBits_fault) simp_all
qed

text \<open>
  C6 (amended), for the \<^verbatim>\<open>VK_TO_BIT\<close> walk (\<^verbatim>\<open>genVkToBits\<close>) and the \<^verbatim>\<open>VK_TO_WCHARS\<close>
  record walk (\<^verbatim>\<open>genSubVkToWchar\<close>): the walk stops at the first record whose key is zero
  and has no other exit. When record \<open>n\<close> is the first with a zero key, the records before
  it lying in the image, the walk makes exactly \<open>n\<close> steps: it returns one line for each of
  the \<open>n\<close> records (after the header lines, for the record walk), then the sentinel line,
  and the extent up to the end of the sentinel record. There is no cap: for every \<open>k\<close> there
  is an image on which the walk makes \<open>k\<close> steps and returns. When the image has no such
  record, the walk with a positive stride ends with the access violation of a read outside
  the image; the record walk with the stride 0, on a record in the image whose key is not
  zero, does not return.
\<close>

theorem walk_stops_at_first_sentinel:
  "(vk_to_bit_sentinel img vtb n \<longrightarrow>
      genVkToBits opt cat img vtb nm =
        Some (Inr (vk_to_bit_lines opt cat img vtb n [] @ [[''{0,'', ''0}'']],
                   \<lparr>name = nm, address = vtb, size_ds = 2 * n + 2\<rparr>))
      \<and> length (vk_to_bit_lines opt cat img vtb n []) = n)
   \<and> ((\<forall>n. \<not> vk_to_bit_sentinel img vtb n) \<longrightarrow>
        genVkToBits opt cat img vtb nm = Some (Inl AccessViolation))
   \<and> (\<forall>k. \<exists>g ds. genVkToBits opt cat (replicate (2 * k) 1 @ [0, 0]) 0 nm = Some (Inr (g, ds))
               \<and> length g = k + 1)
   \<and> (vk_to_wchars_sentinel img vtwc count cbSize n \<longrightarrow>
        (\<exists>g. vk_to_wchars_lines opt cat img vtwc count cbSize n
                (header_grid opt underlines count mods) = Inr g
            \<and> length g = length (header_grid opt underlines count mods) + n
            \<and> genSubVkToWchar opt cat underlines img vtwc count cbSize nm mods =
                Some (Inr (g @ [''{0,'' # replicate count ''0,'' @ [''0}'']],
                           \<lparr>name = nm, address = vtwc, size_ds = cbSize * n + cbSize\<rparr>))))
   \<and> (0 < cbSize \<and> (\<forall>n. \<not> vk_to_wchars_sentinel img vtwc count cbSize n) \<longrightarrow>
        genSubVkToWchar opt cat underlines img vtwc count cbSize nm mods =
          Some (Inl AccessViolation))
   \<and> (\<forall>k. \<exists>g ds. genSubVkToWchar opt cat underlines (replicate (2 * k) 1 @ [0, 0]) 0 0 2 nm mods =
                  Some (Inr (g, ds))
               \<and> length g = length (header_grid opt underlines 0 mods) + k + 1)
   \<and> (img ! vtwc \<noteq> 0 \<and> vtwc + 2 + 2 * count \<le> length img \<longrightarrow>
        genSubVkToWchar opt cat underlines img vtwc count 0 nm mods = None)"
proof (intro conjI impI allI)
  assume "vk_to_bit_sentinel img vtb n"
  then show "genVkToBits opt cat img vtb nm =
        Some (Inr (vk_to_bit_lines opt cat img vtb n [] @ [[''{0,'', ''0}'']],
                   \<lparr>name = nm, address = vtb, size_ds = 2 * n + 2\<rparr>))"
    by (rule genVkToBits_returns)
next
  show "length (vk_to_bit_lines opt cat img vtb n []) = n"
    by (simp add: length_vk_to_bit_lines)
next
  assume "\<forall>n. \<not> vk_to_bit_sentinel img vtb n"
  then show "genVkToBits opt cat img vtb nm = Some (Inl AccessViolation)"
    by (rule genVkToBits_fault)
next
  fix k
  show "\<exists>g ds. genVkToBits opt cat (replicate (2 * k) 1 @ [0, 0]) 0 nm = Some (Inr (g, ds))
               \<and> length g = k + 1"
    using genVkToBits_returns [OF vk_to_bit_sentinel_ones, of opt cat k nm]
    by (simp add: length_vk_to_bit_lines)
next
  assume "vk_to_wchars_sentinel img vtwc count cbSize n"
  then show "\<exists>g. vk_to_wchars_lines opt cat img vtwc count cbSize n
                (header_grid opt underlines count mods) = Inr g
            \<and> length g = length (header_grid opt underlines count mods) + n
            \<and> genSubVkToWchar opt cat underlines img vtwc count cbSize nm mods =
                Some (Inr (g @ [''{0,'' # replicate count ''0,'' @ [''0}'']],
                           \<lparr>name = nm, address = vtwc, size_ds = cbSize * n + cbSize\<rparr>))"
    by (rule genSubVkToWchar_returns)
next
  assume "0 < cbSize \<and> (\<forall>n. \<not> vk_to_wchars_sentinel img vtwc count cbSize n)"
  then show "genSubVkToWchar opt cat underlines img vtwc count cbSize nm mods =
          Some (Inl AccessViolation)"
    by (intro genSubVkToWchar_fault) simp_all
next
  fix k
  from genSubVkToWchar_returns [OF vk_to_wchars_sentinel_ones, of opt cat k underlines mods nm]
  obtain g where
    "length g = length (header_grid opt underlines 0 mods) + k"
    "genSubVkToWchar opt cat underlines (replicate (2 * k) 1 @ [0, 0]) 0 0 2 nm mods =
       Some (Inr (g @ [''{0,'' # replicate 0 ''0,'' @ [''0}'']],
                  \<lparr>name = nm, address = 0, size_ds = 2 * k + 2\<rparr>))"
    by blast
  then show "\<exists>g ds. genSubVkToWchar opt cat underlines (replicate (2 * k) 1 @ [0, 0]) 0 0 2 nm mods =
                  Some (Inr (g, ds))
               \<and> length g = length (header_grid opt underlines 0 mods) + k + 1"
    by simp
next
  assume "img ! vtwc \<noteq> 0 \<and> vtwc + 2 + 2 * count \<le> length img"
  then show "genSubVkToWchar opt cat underlines img vtwc count 0 nm mods = None"
    by (intro genSubVkToWchar_zero_stride) simp_all
qed

text \<open>
  The amended C6 on images of two \<^verbatim>\<open>VK_TO_BIT\<close> records and of one \<^verbatim>\<open>VK_TO_WCHARS2\<close>
  record, with their sentinel and cut before it; the record walk with the header line and
  its underlines, and without them under \<^verbatim>\<open>-n\<close>.
\<close>

theorem walk_stops_at_first_sentinel_witness:
  "vk_to_bit_sentinel [0x10, 1, 0x11, 2, 0, 0] 0 2
   \<and> genVkToBits default_options empty_catalog [0x10, 1, 0x11, 2, 0, 0] 0 ''vk_to_bits'' =
       Some (Inr ([[''{0x10,'', ''0x0001},''], [''{0x11,'', ''0x0002},''], [''{0,'', ''0}'']],
                  \<lparr>name = ''vk_to_bits'', address = 0, size_ds = 6\<rparr>))
   \<and> genVkToBits default_options empty_catalog [0x10, 1, 0x11, 2] 0 ''vk_to_bits'' =
       Some (Inl AccessViolation)
   \<and> vk_to_wchars_sentinel [0x41, 0, 0x61, 0, 0x41, 0, 0, 0, 0, 0, 0, 0] 0 2 6 1
   \<and> genSubVkToWchar default_options empty_catalog addUnderlines
         [0x41, 0, 0x61, 0, 0x41, 0, 0, 0, 0, 0, 0, 0] 0 2 6 ''vk_to_wchar2'' shift_modifiers =
       Some (Inr ([[''//'', [], [], ''Shift''],
                   [''//'', [], [], ''-----''],
                   [''{0x41,'', ''0x00,'',
                    [CHR ''{'', CHR ''L'', CHR 0x27, CHR ''a'', CHR 0x27, CHR '',''],
                    [CHR ''L'', CHR 0x27, CHR ''A'', CHR 0x27, CHR ''}'', CHR ''}'', CHR '','']],
                   [''{0,'', ''0,'', ''0,'', ''0}'']],
                  \<lparr>name = ''vk_to_wchar2'', address = 0, size_ds = 12\<rparr>))
   \<and> genSubVkToWchar numeric_options empty_catalog addUnderlines
         [0x41, 0, 0x61, 0, 0x41, 0, 0, 0, 0, 0, 0, 0] 0 2 6 ''vk_to_wchar2'' shift_modifiers =
       Some (Inr ([[''{0x41,'', ''0x00,'',
                    [CHR ''{'', CHR ''L'', CHR 0x27, CHR ''a'', CHR 0x27, CHR '',''],
                    [CHR ''L'', CHR 0x27, CHR ''A'', CHR 0x27, CHR ''}'', CHR ''}'', CHR '','']],
                   [''{0,'', ''0,'', ''0,'', ''0}'']],
                  \<lparr>name = ''vk_to_wchar2'', address = 0, size_ds = 12\<rparr>))
   \<and> genSubVkToWchar default_options empty_catalog addUnderlines
         [0x41, 0, 0x61, 0, 0x41, 0] 0 2 6 ''vk_to_wchar2'' shift_modifiers =
       Some (Inl AccessViolation)
   \<and> genSubVkToWchar default_options empty_catalog addUnderlines
         [0x41, 0, 0x61, 0, 0x41, 0] 0 2 0 ''vk_to_wchar2'' shift_modifiers = None"
proof -
  let ?bits = "[0x10, 1, 0x11, 2, 0, 0] :: image"
  let ?recs = "[0x41, 0, 0x61, 0, 0x41, 0, 0, 0, 0, 0, 0, 0] :: image"
  let ?cut = "[0x41, 0, 0x61, 0, 0x41, 0] :: image"
  let ?line = "[''{0x41,'', ''0x00,'',
                [CHR ''{'', CHR ''L'', CHR 0x27, CHR ''a'', CHR 0x27, CHR '',''],
                [CHR ''L'', CHR 0x27, CHR ''A'', CHR 0x27, CHR ''}'', CHR ''}'', CHR '','']]"
  have s1: "vk_to_bit_sentinel ?bits 0 2"
    by (simp add: vk_to_bit_sentinel_def upt_conv_Cons)
  have l1: "vk_to_bit_lines default_options empty_catalog ?bits 0 (Suc (Suc 0)) [] =
      [[''{0x10,'', ''0x0001},''], [''{0x11,'', ''0x0002},'']]"
    by (simp add: walk_eval_defs)
  have c1: "genVkToBits default_options empty_catalog ?bits 0 ''vk_to_bits'' =
       Some (Inr ([[''{0x10,'', ''0x0001},''], [''{0x11,'', ''0x0002},''], [''{0,'', ''0}'']],
                  \<lparr>name = ''vk_to_bits'', address = 0, size_ds = 6\<rparr>))"
    using walk_stops_at_first_sentinel [where img = ?bits and vtb = 0
        and n = "Suc (Suc 0)" and opt = default_options and cat = empty_catalog
        and nm = "''vk_to_bits''",
        THEN conjunct1] s1 l1
    by (simp add: numeral_2_eq_2)
  have "\<not> vk_to_bit_sentinel [0x10, 1, 0x11, 2] 0 n" for n
  proof
    assume a: "vk_to_bit_sentinel [0x10, 1, 0x11, 2] 0 n"
    then have "n < 2" by (simp add: vk_to_bit_sentinel_def)
    then consider "n = 0" | "n = 1" by linarith
    then show False using a by cases (simp_all add: vk_to_bit_sentinel_def)
  qed
  then have c2: "genVkToBits default_options empty_catalog [0x10, 1, 0x11, 2] 0 ''vk_to_bits'' =
       Some (Inl AccessViolation)"
    using walk_stops_at_first_sentinel [where img = "[0x10, 1, 0x11, 2]" and vtb = 0
        and opt = default_options and cat = empty_catalog and nm = "''vk_to_bits''",
        THEN conjunct2, THEN conjunct1]
    by simp
  have s2: "vk_to_wchars_sentinel ?recs 0 2 6 1"
    by (simp add: vk_to_wchars_sentinel_def upt_conv_Cons)
  have h: "header_grid default_options addUnderlines 2 shift_modifiers =
      [[''//'', [], [], ''Shift''], [''//'', [], [], ''-----'']]"
    by (simp add: walk_eval_defs)
  have hn: "header_grid numeric_options addUnderlines 2 shift_modifiers = []"
    by (simp add: walk_eval_defs)
  have l2: "vk_to_wchars_lines opt empty_catalog ?recs 0 2 6 (Suc 0) grid = Inr (grid @ [?line])"
    for opt grid
    by (simp add: walk_eval_defs)
  have c3: "genSubVkToWchar default_options empty_catalog addUnderlines ?recs 0 2 6
       ''vk_to_wchar2'' shift_modifiers =
       Some (Inr ([[''//'', [], [], ''Shift''], [''//'', [], [], ''-----''], ?line,
                   [''{0,'', ''0,'', ''0,'', ''0}'']],
                  \<lparr>name = ''vk_to_wchar2'', address = 0, size_ds = 12\<rparr>))"
    using walk_stops_at_first_sentinel [where img = ?recs and vtwc = 0 and count = 2 and cbSize = 6
        and n = "Suc 0" and opt = default_options and cat = empty_catalog
        and underlines = addUnderlines and mods = shift_modifiers and nm = "''vk_to_wchar2''",
        THEN conjunct2, THEN conjunct2, THEN conjunct2, THEN conjunct1]
      s2
    unfolding h l2 by (auto simp: replicate_numeral)
  have c4: "genSubVkToWchar numeric_options empty_catalog addUnderlines ?recs 0 2 6
       ''vk_to_wchar2'' shift_modifiers =
       Some (Inr ([?line, [''{0,'', ''0,'', ''0,'', ''0}'']],
                  \<lparr>name = ''vk_to_wchar2'', address = 0, size_ds = 12\<rparr>))"
    using walk_stops_at_first_sentinel [where img = ?recs and vtwc = 0 and count = 2 and cbSize = 6
        and n = "Suc 0" and opt = numeric_options and cat = empty_catalog
        and underlines = addUnderlines and mods = shift_modifiers and nm = "''vk_to_wchar2''",
        THEN conjunct2, THEN conjunct2, THEN conjunct2, THEN conjunct1]
      s2
    unfolding hn l2 by (auto simp: replicate_numeral)
  have "\<not> vk_to_wchars_sentinel ?cut 0 2 6 n" for n
    by (cases n) (simp_all add: vk_to_wchars_sentinel_def)
  then have c5: "genSubVkToWchar default_options empty_catalog addUnderlines ?cut 0 2 6
       ''vk_to_wchar2'' shift_modifiers = Some (Inl AccessViolation)"
    using walk_stops_at_first_sentinel [where img = ?cut and vtwc = 0 and count = 2
        and cbSize = 6 and opt = default_options and cat = empty_catalog
        and underlines = addUnderlines and mods = shift_modifiers and nm = "''vk_to_wchar2''",
        THEN conjunct2, THEN conjunct2, THEN conjunct2, THEN conjunct2, THEN conjunct1]
    by simp
  have c6: "genSubVkToWchar default_options empty_catalog addUnderlines ?cut 0 2 0
       ''vk_to_wchar2'' shift_modifiers = None"
    using walk_stops_at_first_sentinel [where img = ?cut and vtwc = 0
        and count = 2 and opt = default_options and cat = empty_catalog
        and underlines = addUnderlines and mods = shift_modifiers and nm = "''vk_to_wchar2''",
        THEN conjunct2, THEN conjunct2, THEN conjunct2, THEN conjunct2, THEN conjunct2, THEN conjunct2]
    by simp
  from s1 c1 c2 s2 c3 c4 c5 c6 show ?thesis by (intro conjI)
qed

section \<open>Properties of the numeric-only mode and of the main table\<close>

lemma unat_ucast_16_64: "unat (ucast (w :: 16 word) :: 64 word) = unat w"
proof -
  have "unat w < 2 ^ 16" using unsigned_less [of w, where ?'a = nat] by simp
  then have "unat w < 2 ^ 64" by simp
  then show ?thesis by (simp add: unsigned_ucast_eq take_bit_nat_eq_self)
qed

lemma unat_ucast_32_64: "unat (ucast (w :: 32 word) :: 64 word) = unat w"
proof -
  have "unat w < 2 ^ 32" using unsigned_less [of w, where ?'a = nat] by simp
  then have "unat w < 2 ^ 64" by simp
  then show ?thesis by (simp add: unsigned_ucast_eq take_bit_nat_eq_self)
qed

lemma Format_0x_04X_integer: "Format_0x_04X wc = integer (ucast wc) 4"
  by (simp add: Format_0x_04X_def integer_def Format_0x_llX_def unat_ucast_16_64)

lemma Format_0x_08X_integer: "Format_0x_08X flags = integer (ucast flags) 8"
  by (simp add: Format_0x_08X_def integer_def Format_0x_llX_def unat_ucast_32_64)

lemma wstring_not_integer: "wstring opt str \<noteq> integer v hex_digits"
proof -
  obtain c rest where "integer v hex_digits = c # rest" "c \<in> set ''-0123456789''"
    using integer_hd by blast
  then show ?thesis by (cases str) (auto simp: wstring_def)
qed

text \<open>
  C7, as stated, fails: with the option \<^verbatim>\<open>-n\<close> set, \<^verbatim>\<open>wchar\<close> still returns the character
  literal \<open>L'A'\<close> for the character \<open>0x41\<close>, and \<^verbatim>\<open>wstring\<close>, which never reads the
  option, the string literal \<open>L"A"\<close>; the numeric renderings of \<open>0x41\<close> are \<open>65\<close> and
  \<open>0x0041\<close>.
\<close>

theorem numeric_only_counterexample:
  "num_only numeric_options
   \<and> fst (wchar numeric_options empty_catalog 0x41 []) = [CHR ''L'', CHR 0x27, CHR ''A'', CHR 0x27]
   \<and> wstring numeric_options (Some [0x41]) = [CHR ''L'', CHR 0x22, CHR ''A'', CHR 0x22]
   \<and> integer 0x41 0 = ''65'' \<and> integer 0x41 4 = ''0x0041''"
  by (simp add: numeric_options_def wchar_def wstring_def wchar_literals_def SymbolTable_of_def
      word_sless_alt char_of_def bit_iff_odd_drop_bit format_eval_defs)

text \<open>
  C7 (amended): with the numeric-only option set, \<^verbatim>\<open>symbol\<close>, \<^verbatim>\<open>bitMask\<close> and
  \<^verbatim>\<open>attributes\<close> return \<open>integer value hex_digits\<close> for every table and value, and
  \<^verbatim>\<open>localeFlags\<close> the flags as eight hexadecimal digits. \<^verbatim>\<open>wchar\<close> consults neither the
  symbols nor the descriptions: it leaves \<open>descs\<close> as it is and returns the number, four
  hexadecimal digits, for every character outside the printable ASCII range, but still a
  character literal for a printable ASCII character, with a backslash before the quote
  and the backslash. \<^verbatim>\<open>wstring\<close> does not depend on the option: with it as without it,
  the result is \<open>NULL\<close> for a null pointer and otherwise the letter \<open>L\<close> and the
  characters of the string between double quotes, and in neither case the rendering
  \<open>integer\<close> gives of any number.
\<close>

theorem numeric_only_formatters:
  assumes "num_only opt"
  shows "symbol opt symbols v hex_digits = integer v hex_digits
       \<and> bitMask opt symbols v hex_digits = integer v hex_digits
       \<and> attributes opt symbols attrs v hex_digits = integer v hex_digits
       \<and> localeFlags opt cat flags = integer (ucast flags) 8
       \<and> wchar opt cat wc descs =
           (if wc = 0x27 \<or> wc = 0x5C
            then [CHR ''L'', CHR 0x27, CHR 0x5C, char_of (unat wc), CHR 0x27]
            else if 0x20 \<le> wc \<and> wc < 0x7F
            then [CHR ''L'', CHR 0x27, char_of (unat wc), CHR 0x27]
            else integer (ucast wc) 4,
            descs)
       \<and> wstring opt str = wstring (opt\<lparr>num_only := False\<rparr>) str
       \<and> wstring opt str =
           (case str of
              None \<Rightarrow> ''NULL''
            | Some cs \<Rightarrow> [CHR ''L'', CHR 0x22] @ wstring_chars cs @ [CHR 0x22])
       \<and> wstring opt str \<noteq> integer num width"
  using assms wstring_not_integer [of opt str num width]
  by (simp add: symbol_def bitMask_def attributes_def localeFlags_def wchar_def wstring_def
      Format_0x_04X_integer Format_0x_08X_integer)

theorem numeric_only_formatters_witness:
  "num_only numeric_options
   \<and> symbol numeric_options [(9, ''VK_TAB'')] 9 2 = ''0x09''
   \<and> bitMask numeric_options [(1, ''KBDSHIFT'')] 1 4 = ''0x0001''
   \<and> attributes numeric_options [(9, ''VK_TAB'')] [(0x100, ''KBDEXT'')] 0x109 4 = ''0x0109''
   \<and> localeFlags numeric_options empty_catalog 0x10001 = ''0x00010001''
   \<and> wchar numeric_options empty_catalog 0x09 [] = (''0x0009'', [])
   \<and> wchar numeric_options empty_catalog 0x41 [] = ([CHR ''L'', CHR 0x27, CHR ''A'', CHR 0x27], [])
   \<and> wstring numeric_options None = ''NULL''
   \<and> wstring numeric_options (Some [0x41, 0x09]) =
       [CHR ''L'', CHR 0x22, CHR ''A'', CHR 0x5C, CHR ''t'', CHR 0x22]
   \<and> wstring numeric_options (Some [0x41, 0x09]) \<noteq> integer 0x41 4"
  using numeric_only_formatters [where opt = numeric_options and symbols = "[(9, ''VK_TAB'')]"
      and v = 9 and hex_digits = 2 and attrs = "[]" and cat = empty_catalog and flags = 0
      and wc = "0x09" and descs = "[]" and str = None and num = 0 and width = 0]
    numeric_only_formatters [where opt = numeric_options and symbols = "[(1, ''KBDSHIFT'')]"
      and v = 1 and hex_digits = 4 and attrs = "[]" and cat = empty_catalog
      and flags = "0x10001" and wc = "0x41" and descs = "[]" and str = "Some [0x41, 0x09]"
      and num = "0x41" and width = 4]
    numeric_only_formatters [where opt = numeric_options and symbols = "[(9, ''VK_TAB'')]"
      and v = "0x109" and hex_digits = 4 and attrs = "[(0x100, ''KBDEXT'')]"
      and cat = empty_catalog and flags = 0 and wc = "0x09" and descs = "[]" and str = None
      and num = 0 and width = 0]
  by (simp add: numeric_options_def wstring_def wchar_literals_def SymbolTable_of_def
      word_sless_alt char_of_def bit_iff_odd_drop_bit format_eval_defs)

text \<open>
  C8, as stated, fails: for a main table with \<open>dwType = 100\<close> and \<open>dwSubType = 0\<close>, both
  outside the range, the declaration of \<^verbatim>\<open>kbd_tables\<close> reports \<open>.dwType = 100\<close> and
  \<open>.dwSubType = 0\<close>, not 4; the fallback shows only in \<^verbatim>\<open>KBD_TYPE\<close>. For
  \<open>dwType = 0\<close> the output has \<open>KBD_TYPE 4\<close> and \<open>.dwType = 0\<close>, as kbdusmaruska.c, a
  file the tool generated, has them. And a positive \<^verbatim>\<open>-t\<close> option goes before a
  plausible value of the table.
\<close>

theorem type_scalar_counterexample:
  "dwType sample_tables = 100 \<and> dwSubType sample_tables = 0
   \<and> generate_main_table default_options empty_catalog sample_tables ! 15 = ''    .dwType          = 100,''
   \<and> generate_main_table default_options empty_catalog sample_tables ! 16 = ''    .dwSubType       = 0,''
   \<and> generate_define default_options sample_tables = ''#define KBD_TYPE 4''
   \<and> generate_main_table default_options empty_catalog (sample_tables\<lparr>dwType := 0\<rparr>) ! 15 =
       ''    .dwType          = 0,''
   \<and> generate_define default_options (sample_tables\<lparr>dwType := 0\<rparr>) = ''#define KBD_TYPE 4''
   \<and> generate_define (default_options\<lparr>kbd_type := 7\<rparr>) (sample_tables\<lparr>dwType := 5\<rparr>) = ''#define KBD_TYPE 7''"
  by (simp add: generate_main_table_def generate_define_def generate_kbd_type_def sample_tables_def
      default_options_def unsigned_decimal_def format_eval_defs)

text \<open>
  C8 (amended): the line that defines \<^verbatim>\<open>KBD_TYPE\<close> reports the value of the option
  \<^verbatim>\<open>-t\<close> when it is positive; otherwise the \<^verbatim>\<open>dwType\<close> of the table when
  \<open>0 < dwType < 48\<close>, and 4 when it is not. The fields \<^verbatim>\<open>.dwType\<close> and \<^verbatim>\<open>.dwSubType\<close>
  of the emitted main table are the values of the source table, unchanged.
\<close>

theorem type_scalar_reported:
  "generate_define opt tables =
     ''#define KBD_TYPE '' @
       signed_decimal (if kbd_type opt > 0 then kbd_type opt
                       else if 0 < unat (dwType tables) \<and> unat (dwType tables) < 48
                       then int (unat (dwType tables)) else 4)
   \<and> generate_main_table opt cat tables ! 15 =
       ''    .dwType          = '' @ unsigned_decimal (unat (dwType tables)) @ '',''
   \<and> generate_main_table opt cat tables ! 16 =
       ''    .dwSubType       = '' @ unsigned_decimal (unat (dwSubType tables)) @ '',''"
proof -
  have "dwType tables > 0 \<and> dwType tables < 48
          \<longleftrightarrow> 0 < unat (dwType tables) \<and> unat (dwType tables) < 48"
    by (simp add: word_less_nat_alt)
  then show ?thesis
    by (simp add: generate_define_def generate_kbd_type_def generate_main_table_def)
qed

theorem type_scalar_reported_witness:
  "generate_define default_options (sample_tables\<lparr>dwType := 7\<rparr>) = ''#define KBD_TYPE 7''
   \<and> generate_define default_options (sample_tables\<lparr>dwType := 48\<rparr>) = ''#define KBD_TYPE 4''
   \<and> generate_define default_options (sample_tables\<lparr>dwType := 0\<rparr>) = ''#define KBD_TYPE 4''
   \<and> generate_main_table default_options empty_catalog (sample_tables\<lparr>dwType := 48\<rparr>) ! 15 =
       ''    .dwType          = 48,''"
  using type_scalar_reported [of default_options "sample_tables\<lparr>dwType := 7\<rparr>" empty_catalog]
    type_scalar_reported [of default_options "sample_tables\<lparr>dwType := 48\<rparr>" empty_catalog]
    type_scalar_reported [of default_options "sample_tables\<lparr>dwType := 0\<rparr>" empty_catalog]
  by (simp add: sample_tables_def default_options_def unsigned_decimal_def format_eval_defs)

text \<open>
  C10: in the emitted main table \<^verbatim>\<open>.bMaxVSCtoVK\<close> is the literal 0 when
  \<^verbatim>\<open>pusVSCtoVK\<close> is null and \<open>ARRAYSIZE(scancode_to_vk)\<close> when it is not, and
  \<^verbatim>\<open>.cbLgEntry\<close> is 0 when \<^verbatim>\<open>pLigature\<close> is null and \<open>sizeof(ligatures[0])\<close> when it is
  not. The fields \<^verbatim>\<open>bMaxVSCtoVK\<close> and \<^verbatim>\<open>cbLgEntry\<close> of the source table have no part in
  any line of the declaration.
\<close>

theorem array_sizes_recomputed:
  "generate_main_table opt cat tables ! 8 =
     ''    .bMaxVSCtoVK     = '' @
       (if pusVSCtoVK tables = 0 then ''0,'' else ''ARRAYSIZE(scancode_to_vk),'')
   \<and> generate_main_table opt cat tables ! 13 =
     ''    .cbLgEntry       = '' @
       (if pLigature tables = 0 then ''0,'' else ''sizeof(ligatures[0]),'')
   \<and> generate_main_table opt cat (tables\<lparr>bMaxVSCtoVK := b, cbLgEntry := c\<rparr>) =
     generate_main_table opt cat tables"
  by (simp add: generate_main_table_def)

theorem array_sizes_recomputed_witness:
  "pusVSCtoVK sample_tables = 0 \<and> bMaxVSCtoVK sample_tables = 0x7F
   \<and> pLigature sample_tables = 0 \<and> cbLgEntry sample_tables = 6
   \<and> generate_main_table default_options empty_catalog sample_tables ! 8 =
       ''    .bMaxVSCtoVK     = 0,''
   \<and> generate_main_table default_options empty_catalog sample_tables ! 13 =
       ''    .cbLgEntry       = 0,''
   \<and> generate_main_table default_options empty_catalog
         (sample_tables\<lparr>pusVSCtoVK := 0x1600, pLigature := 0x1700\<rparr>) ! 8 =
       ''    .bMaxVSCtoVK     = ARRAYSIZE(scancode_to_vk),''
   \<and> generate_main_table default_options empty_catalog
         (sample_tables\<lparr>pusVSCtoVK := 0x1600, pLigature := 0x1700\<rparr>) ! 13 =
       ''    .cbLgEntry       = sizeof(ligatures[0]),''"
  using array_sizes_recomputed [of default_options empty_catalog sample_tables 0 0]
    array_sizes_recomputed [of default_options empty_catalog
      "sample_tables\<lparr>pusVSCtoVK := 0x1600, pLigature := 0x1700\<rparr>" 0 0]
  by (simp add: sample_tables_def)

section \<open>Properties of the reading back of the main table\<close>
















lemma field_text_line: "length p = 23 \<Longrightarrow> field_text (p @ e @ '','') = e"
  by (simp add: field_text_def butlast_append)















end
